theory Spec2Isabelle
  imports Main "HOL-Library.AList" "HOL-Library.List_Lexorder" "HOL-Library.Multiset"
begin

section \<open>Python values\<close>

text \<open>
  A Python \<^verbatim>\<open>str\<close> is a sequence of Unicode code points: \<^verbatim>\<open>len\<close> counts them,
  slicing cuts between them, \<^verbatim>\<open>strip\<close> classifies them and \<^verbatim>\<open>sorted\<close> compares
  strings lexicographically by them. A string is therefore a list of code points, and the
  order on strings is the lexicographic order on lists. \<open>str\<close> turns an ASCII literal of
  the source into such a list.
\<close>

type_synonym pystr = "nat list"

definition str :: "string \<Rightarrow> pystr" where
  "str s = map of_char s"

text \<open>
  The values held by the fields of a movie record: \<^verbatim>\<open>main_scraper\<close> builds strings, an
  integer (the running time) and \<^verbatim>\<open>None\<close> (a poster that could not be downloaded); the
  cells read back from the sheet are strings and numbers. \<^verbatim>\<open>merge_data\<close> tests the values
  of the fresh records only, and compares the titles.
\<close>

datatype pyval = PNone | PInt int | PStr pystr

text \<open>Truthiness, as \<^verbatim>\<open>if value\<close> tests it.\<close>

fun truthy :: "pyval \<Rightarrow> bool" where
  "truthy PNone = False"
| "truthy (PInt n) = (n \<noteq> 0)"
| "truthy (PStr s) = (s \<noteq> [])"

text \<open>The sentinel \<^verbatim>\<open>'N/A'\<close>.\<close>

definition N_A :: pystr where
  "N_A = str ''N/A''"

text \<open>
  The exceptions of the modelled code: a missing dictionary key, a comparison between
  values of different types inside \<^verbatim>\<open>sorted\<close>, and anything the HTTP client raises.
\<close>

datatype error = KeyError pystr | TypeError | TransportError

text \<open>
  A \<^verbatim>\<open>dict\<close> keeps its keys in insertion order: an association list with distinct keys,
  where \<^verbatim>\<open>d[k] = v\<close> is \<^const>\<open>AList.update\<close> (in place for a key that is there, at
  the end for a new one), \<^verbatim>\<open>k in d\<close> and \<^verbatim>\<open>d[k]\<close> read \<^const>\<open>map_of\<close>, and
  \<^verbatim>\<open>d.items()\<close> is the list itself.
\<close>

type_synonym ('k, 'v) pydict = "('k \<times> 'v) list"

section \<open>The character budget of a cell (\<^verbatim>\<open>main_scraper\<close>, lines 291 to 294)\<close>

definition SHEETS_CELL_CHAR_LIMIT :: nat where
  "SHEETS_CELL_CHAR_LIMIT = 49900"

definition TRUNCATED :: pystr where
  "TRUNCATED = str ''...[TRUNCATED]''"

text \<open>
  \<^verbatim>\<open>if len(showtimes_data) > SHEETS_CELL_CHAR_LIMIT:
      showtimes_data = showtimes_data[:SHEETS_CELL_CHAR_LIMIT] + "...[TRUNCATED]"\<close>
  The value returned is the one stored under \<^verbatim>\<open>'Aggregated Showtimes Data'\<close>.
\<close>

definition truncate_showtimes_data :: "pystr \<Rightarrow> pystr" where
  "truncate_showtimes_data showtimes_data =
     (if length showtimes_data > SHEETS_CELL_CHAR_LIMIT
      then take SHEETS_CELL_CHAR_LIMIT showtimes_data @ TRUNCATED
      else showtimes_data)"

section \<open>The reconciler: \<^verbatim>\<open>merge_data\<close>\<close>

text \<open>
  A movie record is a dictionary from field names to values; the collection is a dictionary
  from titles to records. The title of a fresh record is whatever value it holds under
  \<^verbatim>\<open>'Movie Title'\<close>, so the keys of the collection are values.

  \<^verbatim>\<open>merge_data\<close> updates the records of \<^verbatim>\<open>existing_data\<close> in place and stores the fresh
  records themselves in \<^verbatim>\<open>updated_data\<close>. The model passes records by value. That gives
  the list the function returns whenever the dictionaries of \<^verbatim>\<open>existing_data\<close> and of
  \<^verbatim>\<open>fresh_data\<close> are distinct objects, which is how \<^verbatim>\<open>read_master_sheet\<close> and
  \<^verbatim>\<open>main_scraper\<close> build them: iteration \<open>i\<close> reads only the \<open>i\<close>-th fresh record
  and writes only to a record of \<^verbatim>\<open>existing_data\<close> or to an earlier fresh record.
\<close>

type_synonym movie = "(pystr, pyval) pydict"
type_synonym collection = "(pyval, movie) pydict"

definition Movie_Title :: pystr where
  "Movie_Title = str ''Movie Title''"

definition Scrape_Date :: pystr where
  "Scrape_Date = str ''Scrape Date''"

text \<open>
  \<^verbatim>\<open>for key, value in movie.items():
      if value and value != 'N/A': updated_data[title][key] = value\<close>
\<close>

fun update_fields :: "movie \<Rightarrow> (pystr \<times> pyval) list \<Rightarrow> movie" where
  "update_fields entry [] = entry"
| "update_fields entry ((key, val) # items) =
     update_fields
       (if truthy val \<and> val \<noteq> PStr N_A then AList.update key val entry else entry) items"

text \<open>
  The branch taken for a title that is in \<^verbatim>\<open>updated_data\<close>: the loop over the fields,
  then \<^verbatim>\<open>updated_data[title]['Scrape Date'] = movie['Scrape Date']\<close>, which raises
  \<^verbatim>\<open>KeyError\<close> when the fresh record has no scrape date.
\<close>

definition update_existing :: "movie \<Rightarrow> movie \<Rightarrow> error + movie" where
  "update_existing entry movie =
     (let entry' = update_fields entry movie in
      case map_of movie Scrape_Date of
        None \<Rightarrow> Inl (KeyError Scrape_Date)
      | Some scrape_date \<Rightarrow> Inr (AList.update Scrape_Date scrape_date entry'))"

text \<open>The loop \<^verbatim>\<open>for movie in fresh_data\<close> over \<^verbatim>\<open>updated_data\<close>.\<close>

fun merge_loop :: "collection \<Rightarrow> movie list \<Rightarrow> error + collection" where
  "merge_loop updated_data [] = Inr updated_data"
| "merge_loop updated_data (movie # fresh_data) =
     (case map_of movie Movie_Title of
        None \<Rightarrow> Inl (KeyError Movie_Title)
      | Some title \<Rightarrow>
          (case map_of updated_data title of
             Some entry \<Rightarrow>
               (case update_existing entry movie of
                  Inl e \<Rightarrow> Inl e
                | Inr entry' \<Rightarrow> merge_loop (AList.update title entry' updated_data) fresh_data)
           | None \<Rightarrow> merge_loop (AList.update title movie updated_data) fresh_data))"

text \<open>The sort key \<^verbatim>\<open>lambda x: x.get('Movie Title', '')\<close>.\<close>

definition title_key :: "movie \<Rightarrow> pyval" where
  "title_key x = (case map_of x Movie_Title of None \<Rightarrow> PStr [] | Some t \<Rightarrow> t)"

fun is_str :: "pyval \<Rightarrow> bool" where
  "is_str (PStr s) = True"
| "is_str v = False"

fun is_int :: "pyval \<Rightarrow> bool" where
  "is_int (PInt n) = True"
| "is_int v = False"

fun str_of :: "pyval \<Rightarrow> pystr" where
  "str_of (PStr s) = s"
| "str_of v = []"

fun int_of :: "pyval \<Rightarrow> int" where
  "int_of (PInt n) = n"
| "int_of v = 0"

text \<open>
  \<^verbatim>\<open>sorted(updated_data.values(), key=...)\<close>: a stable sort by the key. Python compares
  two strings lexicographically and two integers numerically; comparing a string with an
  integer, or \<^verbatim>\<open>None\<close> with anything, raises \<^verbatim>\<open>TypeError\<close>, and sorting two or more
  records compares keys. A list of at most one record is returned without any comparison.
\<close>

definition sorted_by_title :: "movie list \<Rightarrow> error + movie list" where
  "sorted_by_title xs =
     (if length xs \<le> 1 then Inr xs
      else if list_all (\<lambda>x. is_str (title_key x)) xs
        then Inr (sort_key (\<lambda>x. str_of (title_key x)) xs)
      else if list_all (\<lambda>x. is_int (title_key x)) xs
        then Inr (sort_key (\<lambda>x. int_of (title_key x)) xs)
      else Inl TypeError)"

definition merge_data :: "collection \<Rightarrow> movie list \<Rightarrow> error + movie list" where
  "merge_data existing_data fresh_data =
     (case merge_loop existing_data fresh_data of
        Inl e \<Rightarrow> Inl e
      | Inr updated_data \<Rightarrow> sorted_by_title (map snd updated_data))"

section \<open>Extraction from one page: \<^verbatim>\<open>parse_showtimes_from_html\<close>\<close>

text \<open>
  The function reads the elements that
  \<^verbatim>\<open>soup.select('#ShowtimesList > a, #ShowtimesList > div')\<close> returns, in document order.
  Of an \<^verbatim>\<open>a\<close> it reads the text of the first \<^verbatim>\<open>b\<close> inside it, if there is one; of a
  \<^verbatim>\<open>div\<close> it reads the texts of the elements matched by
  \<^verbatim>\<open>'div.showbox a, div.showbox'\<close>.
\<close>

datatype element = A_tag "pystr option" | Div_tag "pystr list"

text \<open>
  \<^verbatim>\<open>str.strip()\<close> removes the white space at both ends: the code points for which
  \<^verbatim>\<open>str.isspace\<close> holds.
\<close>

definition is_space :: "nat \<Rightarrow> bool" where
  "is_space c \<longleftrightarrow>
     (9 \<le> c \<and> c \<le> 13) \<or> (28 \<le> c \<and> c \<le> 32) \<or> c = 133 \<or> c = 160 \<or> c = 5760
     \<or> (8192 \<le> c \<and> c \<le> 8202) \<or> c = 8232 \<or> c = 8233 \<or> c = 8239 \<or> c = 8287
     \<or> c = 12288"

definition strip :: "pystr \<Rightarrow> pystr" where
  "strip s = rev (dropWhile is_space (rev (dropWhile is_space s)))"

type_synonym showtimes = "(pystr, pystr list) pydict"

text \<open>
  The loop over the elements, with the dictionary \<^verbatim>\<open>showtimes\<close> and \<^verbatim>\<open>current_cinema\<close>
  as its state. \<^verbatim>\<open>showtimes[current_cinema].extend(times)\<close> raises \<^verbatim>\<open>KeyError\<close> for a
  cinema that is not in the dictionary.
\<close>

fun parse_loop :: "showtimes \<Rightarrow> pystr \<Rightarrow> element list \<Rightarrow> error + showtimes" where
  "parse_loop showtimes current_cinema [] = Inr showtimes"
| "parse_loop showtimes current_cinema (A_tag None # rest) =
     parse_loop showtimes current_cinema rest"
| "parse_loop showtimes current_cinema (A_tag (Some b_text) # rest) =
     (let cinema = strip b_text in
      parse_loop
        (if map_of showtimes cinema = None then AList.update cinema [] showtimes else showtimes)
        cinema rest)"
| "parse_loop showtimes current_cinema (Div_tag texts # rest) =
     (let times = filter (\<lambda>t. t \<noteq> []) (map strip texts) in
      if times \<noteq> [] \<and> current_cinema \<noteq> N_A then
        (case map_of showtimes current_cinema of
           None \<Rightarrow> Inl (KeyError current_cinema)
         | Some collected \<Rightarrow>
             parse_loop (AList.update current_cinema (collected @ times) showtimes)
               current_cinema rest)
      else parse_loop showtimes current_cinema rest)"

text \<open>
  \<^verbatim>\<open>for cinema in showtimes: showtimes[cinema] = sorted(list(set(showtimes[cinema])))\<close>
\<close>

definition parse_showtimes_from_html :: "element list \<Rightarrow> error + showtimes" where
  "parse_showtimes_from_html cinema_divs =
     (case parse_loop [] N_A cinema_divs of
        Inl e \<Rightarrow> Inl e
      | Inr showtimes \<Rightarrow> Inr (map (\<lambda>(cinema, ts). (cinema, sort (remdups ts))) showtimes))"


section \<open>The showtime session walker: \<^verbatim>\<open>scrape_aggregated_showtimes\<close>\<close>

text \<open>
  What the walker reads of a parsed page: the \<^verbatim>\<open>option\<close> elements of the date selector
  \<^verbatim>\<open>#ctl00_cphContent_ctl00_ddlShowdate\<close> (\<open>None\<close> when \<^verbatim>\<open>select_one\<close> finds no such
  control), the two hidden inputs \<^verbatim>\<open>#__VIEWSTATE\<close> and \<^verbatim>\<open>#__EVENTVALIDATION\<close> (\<open>None\<close>
  when the input is absent, \<open>Some None\<close> when it has no \<^verbatim>\<open>value\<close> attribute), and the
  elements of the showtime list.
\<close>

record option_el =
  opt_value :: "pystr option"
  opt_text :: pystr

record soup =
  date_dropdown :: "option_el list option"
  viewstate_input :: "pystr option option"
  eventvalidation_input :: "pystr option option"
  showtimes_list :: "element list"

text \<open>
  The initial \<^verbatim>\<open>client.get\<close> followed by \<^verbatim>\<open>raise_for_status\<close> either raises or yields
  a page. A postback either raises or yields a response with a status code and a page.
\<close>

datatype get_outcome = GetRaised | GetOk soup

datatype post_outcome = PostRaised | PostResponse nat soup

text \<open>The form of a postback; the session tokens are strings or \<^verbatim>\<open>None\<close>.\<close>

record form_data =
  event_target :: pystr
  event_argument :: pystr
  last_focus :: pystr
  form_viewstate :: "pystr option"
  form_eventvalidation :: "pystr option"
  form_showdate :: pystr

definition MAX_DAYS_TO_SCRAPE :: nat where
  "MAX_DAYS_TO_SCRAPE = 5"

text \<open>
  \<^verbatim>\<open>[(opt.get('value'), opt.text) for opt in date_dropdown.find_all('option')
      if opt.get('value')]\<close>: the options whose value is present and not empty.
\<close>

fun option_pairs :: "option_el list \<Rightarrow> (pystr \<times> pystr) list" where
  "option_pairs [] = []"
| "option_pairs (opt # opts) =
     (case opt_value opt of
        None \<Rightarrow> option_pairs opts
      | Some v \<Rightarrow> if v \<noteq> [] then (v, opt_text opt) # option_pairs opts else option_pairs opts)"

text \<open>
  \<^verbatim>\<open>date_options[:MAX_DAYS_TO_SCRAPE] if MAX_DAYS_TO_SCRAPE else date_options\<close>
\<close>

definition date_options_of :: "option_el list \<Rightarrow> (pystr \<times> pystr) list" where
  "date_options_of opts =
     (if MAX_DAYS_TO_SCRAPE \<noteq> 0 then take MAX_DAYS_TO_SCRAPE (option_pairs opts)
      else option_pairs opts)"

text \<open>
  \<^verbatim>\<open>soup.select_one("#__VIEWSTATE").get("value") if soup.select_one("#__VIEWSTATE") else ""\<close>
\<close>

definition initial_token :: "pystr option option \<Rightarrow> pystr option" where
  "initial_token input = (case input of None \<Rightarrow> Some [] | Some v \<Rightarrow> v)"

text \<open>\<^verbatim>\<open>if new_viewstate: viewstate = new_viewstate.get("value")\<close>\<close>

definition refresh_token :: "pystr option \<Rightarrow> pystr option option \<Rightarrow> pystr option" where
  "refresh_token token input = (case input of None \<Rightarrow> token | Some v \<Rightarrow> v)"

type_synonym all_dates = "(pystr, showtimes) pydict"

text \<open>
  The loop over \<^verbatim>\<open>enumerate(date_options[1:])\<close>. \<open>post i form\<close> is what the \<open>i\<close>-th
  postback, sent with \<open>form\<close>, comes back with. The loop returns \<^verbatim>\<open>all_dates_data\<close>, or
  the exception that left it, and the forms it has posted, in order.
\<close>

fun post_loop ::
  "(nat \<Rightarrow> form_data \<Rightarrow> post_outcome) \<Rightarrow> nat \<Rightarrow> (pystr \<times> pystr) list \<Rightarrow> all_dates \<Rightarrow>
   pystr option \<Rightarrow> pystr option \<Rightarrow> (error + all_dates) \<times> form_data list" where
  "post_loop post i [] all_dates_data viewstate eventvalidation = (Inr all_dates_data, [])"
| "post_loop post i ((date_val, date_txt) # rest) all_dates_data viewstate eventvalidation =
     (let form = \<lparr>event_target = str ''ctl00$cphContent$ctl00$ddlShowdate'',
                  event_argument = [], last_focus = [],
                  form_viewstate = viewstate, form_eventvalidation = eventvalidation,
                  form_showdate = date_val\<rparr> in
      case post i form of
        PostRaised \<Rightarrow> (Inl TransportError, [form])
      | PostResponse status_code post_soup \<Rightarrow>
          if status_code \<noteq> 200 then (Inr all_dates_data, [form])
          else
            (case parse_showtimes_from_html (showtimes_list post_soup) of
               Inl e \<Rightarrow> (Inl e, [form])
             | Inr date_showtimes \<Rightarrow>
                 (case post_loop post (Suc i) rest
                         (AList.update date_txt date_showtimes all_dates_data)
                         (refresh_token viewstate (viewstate_input post_soup))
                         (refresh_token eventvalidation (eventvalidation_input post_soup)) of
                    (r, forms) \<Rightarrow> (r, form # forms))))"

text \<open>The entries of the final structure.\<close>

record showing =
  show_date :: pystr
  show_times :: "pystr list"

record cinema_entry =
  cinemaName :: pystr
  showings :: "showing list"

type_synonym cinema_map = "(pystr, cinema_entry) pydict"

text \<open>
  \<^verbatim>\<open>for cinema_name, times in cinemas.items():
      if cinema_name not in cinema_map:
          cinema_map[cinema_name] = {"cinemaName": cinema_name, "showings": []}
      cinema_map[cinema_name]["showings"].append({"date": date_str, "times": times})\<close>
\<close>

fun add_cinemas :: "pystr \<Rightarrow> (pystr \<times> pystr list) list \<Rightarrow> cinema_map \<Rightarrow> cinema_map" where
  "add_cinemas date_str [] cinema_map = cinema_map"
| "add_cinemas date_str ((cinema_name, ts) # cinemas) cinema_map =
     (let cinema_map' =
        (if map_of cinema_map cinema_name = None
         then AList.update cinema_name \<lparr>cinemaName = cinema_name, showings = []\<rparr> cinema_map
         else cinema_map)
      in add_cinemas date_str cinemas
           (AList.map_entry cinema_name
              (\<lambda>e. e\<lparr>showings := showings e @ [\<lparr>show_date = date_str, show_times = ts\<rparr>]\<rparr>)
              cinema_map'))"

text \<open>\<^verbatim>\<open>for date_str, cinemas in all_dates_data.items()\<close>\<close>

fun restructure :: "all_dates \<Rightarrow> cinema_map \<Rightarrow> cinema_map" where
  "restructure [] cinema_map = cinema_map"
| "restructure ((date_str, cinemas) # rest) cinema_map =
     restructure rest (add_cinemas date_str cinemas cinema_map)"

text \<open>\<^verbatim>\<open>final_json = list(cinema_map.values())\<close>\<close>

definition final_json_of :: "all_dates \<Rightarrow> cinema_entry list" where
  "final_json_of all_dates_data = map snd (restructure all_dates_data [])"

text \<open>
  \<^verbatim>\<open>json.dumps(final_json, separators=(',', ':'))\<close>, which escapes to ASCII: a quote, a
  backslash and the control characters with a short form are written with it, a code point
  outside the printable ASCII range as \<^verbatim>\<open>\uXXXX\<close>, one beyond the basic plane as a
  surrogate pair.
\<close>

definition hexdigit :: "nat \<Rightarrow> nat" where
  "hexdigit d = (if d < 10 then 48 + d else 87 + d)"

definition u_escape :: "nat \<Rightarrow> pystr" where
  "u_escape n =
     [92, 117] @ map hexdigit [n div 4096 mod 16, n div 256 mod 16, n div 16 mod 16, n mod 16]"

definition esc_char :: "nat \<Rightarrow> pystr" where
  "esc_char c =
     (if c = 34 then [92, 34]
      else if c = 92 then [92, 92]
      else if c = 10 then [92, 110]
      else if c = 13 then [92, 114]
      else if c = 9 then [92, 116]
      else if c = 12 then [92, 102]
      else if c = 8 then [92, 98]
      else if 32 \<le> c \<and> c \<le> 126 then [c]
      else if c < 65536 then u_escape c
      else u_escape (55296 + (c - 65536) div 1024 mod 1024)
           @ u_escape (56320 + (c - 65536) mod 1024))"

definition json_str :: "pystr \<Rightarrow> pystr" where
  "json_str s = [34] @ concat (map esc_char s) @ [34]"

fun join :: "pystr \<Rightarrow> pystr list \<Rightarrow> pystr" where
  "join sep [] = []"
| "join sep [x] = x"
| "join sep (x # y # ys) = x @ sep @ join sep (y # ys)"

definition json_list :: "('a \<Rightarrow> pystr) \<Rightarrow> 'a list \<Rightarrow> pystr" where
  "json_list f xs = str ''['' @ join (str '','') (map f xs) @ str '']''"

definition json_showing :: "showing \<Rightarrow> pystr" where
  "json_showing s =
     str ''{'' @ json_str (str ''date'') @ str '':'' @ json_str (show_date s) @ str '',''
     @ json_str (str ''times'') @ str '':'' @ json_list json_str (show_times s) @ str ''}''"

definition json_cinema :: "cinema_entry \<Rightarrow> pystr" where
  "json_cinema c =
     str ''{'' @ json_str (str ''cinemaName'') @ str '':'' @ json_str (cinemaName c) @ str '',''
     @ json_str (str ''showings'') @ str '':'' @ json_list json_showing (showings c) @ str ''}''"

definition json_dumps :: "cinema_entry list \<Rightarrow> pystr" where
  "json_dumps final_json = json_list json_cinema final_json"

text \<open>
  The walker. Its result is the string it returns together with the forms it has posted.
  Every exception is caught and turned into the sentinel.
\<close>

record walk_result =
  returned :: pystr
  posted :: "form_data list"

definition scrape_aggregated_showtimes ::
  "get_outcome \<Rightarrow> (nat \<Rightarrow> form_data \<Rightarrow> post_outcome) \<Rightarrow> walk_result" where
  "scrape_aggregated_showtimes get post =
     (case get of
        GetRaised \<Rightarrow> \<lparr>returned = N_A, posted = []\<rparr>
      | GetOk page \<Rightarrow>
          (case date_dropdown page of
             None \<Rightarrow> \<lparr>returned = N_A, posted = []\<rparr>
           | Some opts \<Rightarrow>
               (case date_options_of opts of
                  [] \<Rightarrow> \<lparr>returned = N_A, posted = []\<rparr>
                | (first_val, first_txt) # remaining \<Rightarrow>
                    (case parse_showtimes_from_html (showtimes_list page) of
                       Inl e \<Rightarrow> \<lparr>returned = N_A, posted = []\<rparr>
                     | Inr first_date_showtimes \<Rightarrow>
                         (case post_loop post 0 remaining
                                 (AList.update first_txt first_date_showtimes [])
                                 (initial_token (viewstate_input page))
                                 (initial_token (eventvalidation_input page)) of
                            (Inl e, forms) \<Rightarrow> \<lparr>returned = N_A, posted = forms\<rparr>
                          | (Inr all_dates_data, forms) \<Rightarrow>
                              \<lparr>returned = json_dumps (final_json_of all_dates_data),
                               posted = forms\<rparr>)))))"


section \<open>Auxiliary notions for stating the properties\<close>

text \<open>
  The cinema names a list of elements introduces, and the value of \<^verbatim>\<open>current_cinema\<close> after
  the loop of \<^verbatim>\<open>parse_showtimes_from_html\<close> has gone through it.
\<close>

fun introduced :: "element list \<Rightarrow> pystr set" where
  "introduced [] = {}"
| "introduced (A_tag None # rest) = introduced rest"
| "introduced (A_tag (Some b_text) # rest) = insert (strip b_text) (introduced rest)"
| "introduced (Div_tag texts # rest) = introduced rest"

fun current_after :: "pystr \<Rightarrow> element list \<Rightarrow> pystr" where
  "current_after current_cinema [] = current_cinema"
| "current_after current_cinema (A_tag None # rest) = current_after current_cinema rest"
| "current_after current_cinema (A_tag (Some b_text) # rest) = current_after (strip b_text) rest"
| "current_after current_cinema (Div_tag texts # rest) = current_after current_cinema rest"

text \<open>
  A field holds a real value when it is there and its value is truthy and not the sentinel:
  the test \<^verbatim>\<open>value and value != 'N/A'\<close> of \<^verbatim>\<open>merge_data\<close>.
\<close>

definition real_value :: "pyval option \<Rightarrow> bool" where
  "real_value vo = (case vo of None \<Rightarrow> False | Some v \<Rightarrow> truthy v \<and> v \<noteq> PStr N_A)"

text \<open>The fresh records that carry a given title.\<close>

abbreviation has_title :: "pyval \<Rightarrow> movie \<Rightarrow> bool" where
  "has_title T m \<equiv> map_of m Movie_Title = Some T"

text \<open>
  The update branch of \<^verbatim>\<open>merge_data\<close> applied to one entry with a list of fresh records
  in turn.
\<close>

fun fold_updates :: "movie \<Rightarrow> movie list \<Rightarrow> error + movie" where
  "fold_updates entry [] = Inr entry"
| "fold_updates entry (movie # movies) =
     (case update_existing entry movie of
        Inl e \<Rightarrow> Inl e
      | Inr entry' \<Rightarrow> fold_updates entry' movies)"



text \<open>
  A record whose sort key is a string, and a fresh record as \<^verbatim>\<open>main_scraper\<close> builds it:
  a dictionary with a title, which is a string, and a scrape date.
\<close>

definition str_titled :: "movie \<Rightarrow> bool" where
  "str_titled m \<longleftrightarrow> is_str (title_key m)"

definition complete_record :: "movie \<Rightarrow> bool" where
  "complete_record m \<longleftrightarrow>
     map_of m Movie_Title \<noteq> None \<and> map_of m Scrape_Date \<noteq> None \<and> str_titled m
     \<and> distinct (map fst m)"

text \<open>Example records.\<close>

definition movie_A_earlier :: movie where
  "movie_A_earlier =
     [(Movie_Title, PStr (str ''Movie A'')), (str ''Genre'', PStr (str ''Action'')),
      (Scrape_Date, PStr (str ''2024-01-01''))]"

definition movie_A_later :: movie where
  "movie_A_later =
     [(Movie_Title, PStr (str ''Movie A'')), (str ''Genre'', PStr (str ''N/A'')),
      (Scrape_Date, PStr (str ''2024-02-01''))]"

definition movie_A_folded :: movie where
  "movie_A_folded =
     [(Movie_Title, PStr (str ''Movie A'')), (str ''Genre'', PStr (str ''Action'')),
      (Scrape_Date, PStr (str ''2024-02-01''))]"

definition movie_A_undated :: movie where
  "movie_A_undated =
     [(Movie_Title, PStr (str ''Movie A'')), (str ''Genre'', PStr (str ''Drama'')),
      (Scrape_Date, PStr (str ''N/A''))]"

definition movie_B :: movie where
  "movie_B = [(Movie_Title, PStr (str ''Movie B'')), (Scrape_Date, PStr (str ''2024-02-01''))]"

definition movie_C :: movie where
  "movie_C = [(Movie_Title, PStr (str ''Movie C'')), (Scrape_Date, PStr (str ''2024-02-01''))]"

text \<open>
  The value of a field in the last record of a list that holds a real value for it, if
  there is one.
\<close>

fun last_real_value :: "pystr \<Rightarrow> movie list \<Rightarrow> pyval option" where
  "last_real_value field [] = None"
| "last_real_value field (m # ms) =
     (case last_real_value field ms of
        Some v \<Rightarrow> Some v
      | None \<Rightarrow> if real_value (map_of m field) then map_of m field else None)"

text \<open>
  More example records: two fresh records for one title, each with one field the other
  lacks, and what they merge to; and a title that is a number in the sheet and a string in
  the fresh batch.
\<close>

definition movie_A_first :: movie where
  "movie_A_first =
     [(Movie_Title, PStr (str ''Movie A'')), (str ''Genre'', PStr (str ''Action'')),
      (str ''Director'', PStr (str ''N/A'')), (Scrape_Date, PStr (str ''2024-02-01 10:00:00''))]"

definition movie_A_second :: movie where
  "movie_A_second =
     [(Movie_Title, PStr (str ''Movie A'')), (str ''Genre'', PStr (str ''N/A'')),
      (str ''Director'', PStr (str ''Nolan'')), (Scrape_Date, PStr (str ''2024-02-01 10:05:00''))]"

definition movie_A_both :: movie where
  "movie_A_both =
     [(Movie_Title, PStr (str ''Movie A'')), (str ''Genre'', PStr (str ''Action'')),
      (str ''Director'', PStr (str ''Nolan'')), (Scrape_Date, PStr (str ''2024-02-01 10:05:00''))]"

definition movie_1917_sheet :: movie where
  "movie_1917_sheet = [(Movie_Title, PInt 1917), (Scrape_Date, PStr (str ''2024-01-01''))]"

definition movie_1917_fresh :: movie where
  "movie_1917_fresh =
     [(Movie_Title, PStr (str ''1917'')), (Scrape_Date, PStr (str ''2024-02-01''))]"

text \<open>
  The dictionary \<^verbatim>\<open>all_dates_data\<close> after the assignments
  \<^verbatim>\<open>all_dates_data[date_txt] = date_showtimes\<close> for a list of dates, in order.
\<close>

fun collect_dates :: "(pystr \<times> showtimes) list \<Rightarrow> all_dates \<Rightarrow> all_dates" where
  "collect_dates [] all_dates_data = all_dates_data"
| "collect_dates ((date_txt, date_showtimes) # rest) all_dates_data =
     collect_dates rest (AList.update date_txt date_showtimes all_dates_data)"

text \<open>
  A cinema map holds a showing for a cinema; the entries of a cinema map carry their key as
  name.
\<close>

definition has_showing :: "cinema_map \<Rightarrow> pystr \<Rightarrow> showing \<Rightarrow> bool" where
  "has_showing cm c sh \<longleftrightarrow>
     (\<exists>e. map_of cm c = Some e \<and> cinemaName e = c \<and> sh \<in> set (showings e))"

definition names_are_keys :: "cinema_map \<Rightarrow> bool" where
  "names_are_keys cm \<longleftrightarrow> (\<forall>c e. map_of cm c = Some e \<longrightarrow> cinemaName e = c)"

text \<open>
  Example pages, and a server that answers the first \<open>n\<close> postbacks with a page and status
  200 and every later one with status 500.
\<close>

definition page_three_days :: soup where
  "page_three_days =
     \<lparr>date_dropdown = Some [\<lparr>opt_value = Some (str ''d1''), opt_text = str ''Mon''\<rparr>,
                            \<lparr>opt_value = Some (str ''d2''), opt_text = str ''Tue''\<rparr>,
                            \<lparr>opt_value = Some (str ''d3''), opt_text = str ''Wed''\<rparr>],
      viewstate_input = Some (Some (str ''VS0'')), eventvalidation_input = None,
      showtimes_list = [A_tag (Some (str ''GSC'')), Div_tag [str ''10:00'']]\<rparr>"

definition page_two_mondays :: soup where
  "page_two_mondays =
     \<lparr>date_dropdown = Some [\<lparr>opt_value = Some (str ''d1''), opt_text = str ''Mon''\<rparr>,
                            \<lparr>opt_value = Some (str ''d2''), opt_text = str ''Mon''\<rparr>,
                            \<lparr>opt_value = Some (str ''d3''), opt_text = str ''Tue''\<rparr>],
      viewstate_input = Some (Some (str ''VS0'')), eventvalidation_input = None,
      showtimes_list = [A_tag (Some (str ''GSC'')), Div_tag [str ''10:00'']]\<rparr>"

definition page_next_day :: soup where
  "page_next_day =
     \<lparr>date_dropdown = None,
      viewstate_input = Some (Some (str ''VS1'')), eventvalidation_input = None,
      showtimes_list = [A_tag (Some (str ''TGV'')), Div_tag [str ''12:00'']]\<rparr>"

definition page_without_selector :: soup where
  "page_without_selector =
     \<lparr>date_dropdown = None, viewstate_input = None, eventvalidation_input = None,
      showtimes_list = [A_tag (Some (str ''GSC'')), Div_tag [str ''10:00'']]\<rparr>"

definition page_without_dates :: soup where
  "page_without_dates =
     \<lparr>date_dropdown = Some [\<lparr>opt_value = None, opt_text = str ''Select a date''\<rparr>],
      viewstate_input = None, eventvalidation_input = None,
      showtimes_list = [A_tag (Some (str ''GSC'')), Div_tag [str ''10:00'']]\<rparr>"

definition server_failing_at :: "nat \<Rightarrow> nat \<Rightarrow> form_data \<Rightarrow> post_outcome" where
  "server_failing_at n i form =
     (if i < n then PostResponse 200 page_next_day else PostResponse 500 page_without_selector)"

section \<open>Properties of the truncation\<close>

lemma length_TRUNCATED: "length TRUNCATED = 14"
  by (simp add: TRUNCATED_def str_def)

text \<open>
  C2, as stated, fails: a payload one character over the budget is stored with 49914
  characters, the 49900 of the prefix and the 14 of the marker, which is more than the
  budget.
\<close>

theorem truncate_exceeds_budget_counterexample:
  "\<not> length (truncate_showtimes_data (replicate 49901 65)) \<le> SHEETS_CELL_CHAR_LIMIT"
  by (simp add: truncate_showtimes_data_def SHEETS_CELL_CHAR_LIMIT_def length_TRUNCATED)

text \<open>
  C2, amended: the stored payload never exceeds the budget plus the length of the marker
  (49914 characters, still below the 50000 of the sink); a payload within the budget is
  stored as it is; and whenever the unbounded payload exceeds the budget, the stored value
  is the prefix of budget length followed by the literal marker, of length exactly 49914.
\<close>

theorem truncate_showtimes_data_bound:
  "length (truncate_showtimes_data s) \<le> SHEETS_CELL_CHAR_LIMIT + length TRUNCATED
   \<and> SHEETS_CELL_CHAR_LIMIT + length TRUNCATED = 49914
   \<and> (length s \<le> SHEETS_CELL_CHAR_LIMIT \<longrightarrow> truncate_showtimes_data s = s)
   \<and> (length s > SHEETS_CELL_CHAR_LIMIT \<longrightarrow>
        truncate_showtimes_data s = take SHEETS_CELL_CHAR_LIMIT s @ str ''...[TRUNCATED]''
        \<and> length (truncate_showtimes_data s) = 49914)"
  by (simp add: truncate_showtimes_data_def SHEETS_CELL_CHAR_LIMIT_def length_TRUNCATED
      TRUNCATED_def [symmetric])

theorem truncate_showtimes_data_bound_witness:
  "length (truncate_showtimes_data (replicate 50000 97)) = 49914
   \<and> truncate_showtimes_data (replicate 50000 97) = replicate 49900 97 @ str ''...[TRUNCATED]''
   \<and> truncate_showtimes_data (str ''N/A'') = str ''N/A''"
  using truncate_showtimes_data_bound [of "replicate 50000 97"]
    truncate_showtimes_data_bound [of "str ''N/A''"]
  by (simp add: SHEETS_CELL_CHAR_LIMIT_def str_def)


section \<open>Properties of the extraction from one page\<close>

lemma map_of_update_other: "k' \<noteq> k \<Longrightarrow> map_of (AList.update k v al) k' = map_of al k'"
  by (simp add: update_conv')

lemma map_of_update_same: "map_of (AList.update k v al) k = Some v"
  by (simp add: update_conv')

lemma parse_loop_returns:
  "current_cinema = N_A \<or> map_of showtimes current_cinema \<noteq> None \<Longrightarrow>
   \<exists>st. parse_loop showtimes current_cinema elems = Inr st"
proof (induction showtimes current_cinema elems rule: parse_loop.induct)
  case (1 showtimes current_cinema)
  then show ?case by simp
next
  case (2 showtimes current_cinema rest)
  then show ?case by simp
next
  case (3 showtimes current_cinema b_text rest)
  have "map_of (if map_of showtimes (strip b_text) = None
                then AList.update (strip b_text) [] showtimes else showtimes) (strip b_text) \<noteq> None"
    by (simp add: map_of_update_same)
  with 3 show ?case by (simp add: Let_def)
next
  case (4 showtimes current_cinema texts rest)
  show ?case
  proof (cases "filter (\<lambda>t. t \<noteq> []) (map strip texts) \<noteq> [] \<and> current_cinema \<noteq> N_A")
    case True
    with 4(3) obtain collected where c: "map_of showtimes current_cinema = Some collected"
      by auto
    have "map_of (AList.update current_cinema (collected @ filter (\<lambda>t. t \<noteq> []) (map strip texts)) showtimes)
            current_cinema \<noteq> None"
      by (simp add: map_of_update_same)
    with 4(1) [OF refl True c] True c show ?thesis by (simp add: Let_def)
  next
    case False
    with 4(2) [OF refl False] 4(3) show ?thesis by (auto simp add: Let_def)
  qed
qed

lemma parse_showtimes_from_html_returns:
  "\<exists>st. parse_showtimes_from_html elems = Inr st"
proof -
  obtain st where "parse_loop [] N_A elems = Inr st"
    using parse_loop_returns [of N_A "[]" elems] by auto
  then show ?thesis by (simp add: parse_showtimes_from_html_def)
qed

text \<open>
  C7: the extraction of a page always returns, and in what it returns each cinema's list of
  time labels has no duplicate and is sorted in ascending order.
\<close>

theorem parse_times_distinct_sorted:
  "\<exists>st. parse_showtimes_from_html cinema_divs = Inr st
     \<and> (\<forall>(cinema, ts) \<in> set st. distinct ts \<and> sorted ts)"
proof -
  obtain st where "parse_loop [] N_A cinema_divs = Inr st"
    using parse_loop_returns [of N_A "[]" cinema_divs] by auto
  then show ?thesis by (auto simp add: parse_showtimes_from_html_def)
qed

theorem parse_times_distinct_sorted_witness:
  "parse_showtimes_from_html
     [A_tag (Some (str '' GSC '')), Div_tag [str ''11:00'', str '' 10:00'', str ''11:00'', str '' '']]
     = Inr [(str ''GSC'', [str ''10:00'', str ''11:00''])]
   \<and> distinct [str ''10:00'', str ''11:00''] \<and> sorted [str ''10:00'', str ''11:00'']"
  using parse_times_distinct_sorted
    [of "[A_tag (Some (str '' GSC '')), Div_tag [str ''11:00'', str '' 10:00'', str ''11:00'', str '' '']]"]
  by (simp add: parse_showtimes_from_html_def str_def strip_def is_space_def N_A_def)

lemma parse_loop_append:
  "parse_loop showtimes current_cinema (xs @ ys) =
     (case parse_loop showtimes current_cinema xs of
        Inl e \<Rightarrow> Inl e
      | Inr st \<Rightarrow> parse_loop st (current_after current_cinema xs) ys)"
  by (induction showtimes current_cinema xs rule: parse_loop.induct)
     (simp_all add: Let_def split: option.split cong: sum.case_cong)

lemma current_after_not_introduced:
  "\<forall>t. A_tag (Some t) \<notin> set elems \<Longrightarrow> current_after current_cinema elems = current_cinema"
  by (induction current_cinema elems rule: current_after.induct) auto

lemma parse_loop_preserves:
  "parse_loop showtimes current_cinema elems = Inr st \<Longrightarrow> c \<notin> introduced elems \<Longrightarrow>
   current_cinema \<noteq> c \<or> c = N_A \<Longrightarrow> map_of st c = map_of showtimes c"
proof (induction showtimes current_cinema elems rule: parse_loop.induct)
  case (1 showtimes current_cinema)
  then show ?case by simp
next
  case (2 showtimes current_cinema rest)
  then show ?case by simp
next
  case (3 showtimes current_cinema b_text rest)
  from 3(3) have ne: "strip b_text \<noteq> c" and ni: "c \<notin> introduced rest" by auto
  from 3(2) have "map_of st c = map_of (if map_of showtimes (strip b_text) = None
        then AList.update (strip b_text) [] showtimes else showtimes) c"
    using 3(1) [OF refl _ ni] ne by (simp add: Let_def)
  with ne show ?case by (simp add: map_of_update_other)
next
  case (4 showtimes current_cinema texts rest)
  from 4(4) have ni: "c \<notin> introduced rest" by simp
  show ?case
  proof (cases "filter (\<lambda>t. t \<noteq> []) (map strip texts) \<noteq> [] \<and> current_cinema \<noteq> N_A")
    case True
    with 4(3) obtain collected where col: "map_of showtimes current_cinema = Some collected"
      by (auto simp add: Let_def split: option.splits)
    from True 4(5) have ne: "current_cinema \<noteq> c" by auto
    from 4(3) True col have "parse_loop (AList.update current_cinema
        (collected @ filter (\<lambda>t. t \<noteq> []) (map strip texts)) showtimes) current_cinema rest = Inr st"
      by (simp add: Let_def)
    from 4(1) [OF refl True col this ni 4(5)] ne show ?thesis
      by (simp add: map_of_update_other)
  next
    case False
    with 4(3) have "parse_loop showtimes current_cinema rest = Inr st"
      by (auto simp add: Let_def)
    from 4(2) [OF refl False this ni 4(5)] show ?thesis .
  qed
qed

lemma parse_loop_has_entry:
  "parse_loop showtimes current_cinema elems = Inr st \<Longrightarrow>
   c \<in> introduced elems \<or> map_of showtimes c \<noteq> None \<Longrightarrow> map_of st c \<noteq> None"
proof (induction showtimes current_cinema elems rule: parse_loop.induct)
  case (1 showtimes current_cinema)
  then show ?case by simp
next
  case (2 showtimes current_cinema rest)
  then show ?case by simp
next
  case (3 showtimes current_cinema b_text rest)
  let ?st = "if map_of showtimes (strip b_text) = None
        then AList.update (strip b_text) [] showtimes else showtimes"
  from 3(2) have run: "parse_loop ?st (strip b_text) rest = Inr st" by (simp add: Let_def)
  from 3(3) have "c \<in> introduced rest \<or> map_of ?st c \<noteq> None"
    by (cases "c = strip b_text") (auto simp add: map_of_update_same map_of_update_other)
  from 3(1) [OF refl run this] show ?case .
next
  case (4 showtimes current_cinema texts rest)
  let ?times = "filter (\<lambda>t. t \<noteq> []) (map strip texts)"
  show ?case
  proof (cases "?times \<noteq> [] \<and> current_cinema \<noteq> N_A")
    case True
    with 4(3) obtain collected where col: "map_of showtimes current_cinema = Some collected"
      by (auto simp add: Let_def split: option.splits)
    from 4(3) True col have run: "parse_loop (AList.update current_cinema
        (collected @ ?times) showtimes) current_cinema rest = Inr st"
      by (simp add: Let_def)
    from 4(4) have "c \<in> introduced rest
        \<or> map_of (AList.update current_cinema (collected @ ?times) showtimes) c \<noteq> None"
      by (cases "c = current_cinema") (auto simp add: map_of_update_same map_of_update_other)
    from 4(1) [OF refl True col run this] show ?thesis .
  next
    case False
    with 4(3) have run: "parse_loop showtimes current_cinema rest = Inr st"
      by (auto simp add: Let_def)
    from 4(4) have "c \<in> introduced rest \<or> map_of showtimes c \<noteq> None" by simp
    from 4(2) [OF refl False run this] show ?thesis .
  qed
qed

lemma introduced_iff: "c \<in> introduced elems \<longleftrightarrow> (\<exists>t. A_tag (Some t) \<in> set elems \<and> strip t = c)"
  by (induction elems rule: introduced.induct) auto

lemma map_of_sorted_entries:
  "map_of (map (\<lambda>(cinema, ts). (cinema, sort (remdups ts))) st) c
     = map_option (\<lambda>ts. sort (remdups ts)) (map_of st c)"
  by (induction st) auto

lemma parse_introduced_has_entry:
  assumes "A_tag (Some t) \<in> set elems"
  shows "\<exists>st ts. parse_showtimes_from_html elems = Inr st \<and> map_of st (strip t) = Some ts"
proof -
  obtain st where run: "parse_loop [] N_A elems = Inr st"
    using parse_loop_returns [of N_A "[]" elems] by auto
  from assms have "strip t \<in> introduced elems" by (auto simp add: introduced_iff)
  with parse_loop_has_entry [OF run, of "strip t"] obtain ts where "map_of st (strip t) = Some ts"
    by auto
  with run show ?thesis
    by (simp add: parse_showtimes_from_html_def map_of_sorted_entries)
qed

lemma parse_introduced_empty:
  assumes pre: "strip t \<notin> introduced pre"
    and post: "post = [] \<or> (\<exists>t' post'. post = A_tag (Some t') # post')"
    and ni: "strip t \<notin> introduced post"
  shows "\<exists>st. parse_showtimes_from_html (pre @ A_tag (Some t) # post) = Inr st
           \<and> map_of st (strip t) = Some []"
proof -
  let ?c = "strip t"
  obtain st1 where run1: "parse_loop [] N_A pre = Inr st1"
    using parse_loop_returns [of N_A "[]" pre] by auto
  have none1: "map_of st1 ?c = None"
  proof (cases "?c = N_A")
    case True
    with parse_loop_preserves [OF run1 pre] show ?thesis by simp
  next
    case False
    then have "N_A \<noteq> ?c \<or> ?c = N_A" by auto
    from parse_loop_preserves [OF run1 pre this] show ?thesis by simp
  qed
  let ?st2 = "AList.update ?c [] st1"
  have e2: "map_of ?st2 ?c = Some []" by (simp add: map_of_update_same)
  obtain st where run: "parse_loop ?st2 ?c post = Inr st"
    using parse_loop_returns [of ?c ?st2 post] e2 by auto
  have "map_of st ?c = Some []"
  proof (cases post)
    case Nil
    with run e2 show ?thesis by simp
  next
    case (Cons e post')
    with post obtain t' where e: "e = A_tag (Some t')" by auto
    from ni Cons e have ne: "strip t' \<noteq> ?c" and ni': "?c \<notin> introduced post'" by auto
    let ?st3 = "if map_of ?st2 (strip t') = None then AList.update (strip t') [] ?st2 else ?st2"
    from run Cons e have run3: "parse_loop ?st3 (strip t') post' = Inr st" by (simp add: Let_def)
    from ne have "strip t' \<noteq> ?c \<or> ?c = N_A" by simp
    from parse_loop_preserves [OF run3 ni' this] have "map_of st ?c = map_of ?st3 ?c" .
    also from ne have "\<dots> = map_of ?st2 ?c" by (simp add: map_of_update_other)
    finally show ?thesis using e2 by simp
  qed
  moreover have "parse_loop [] N_A (pre @ A_tag (Some t) # post) = Inr st"
    using run1 run none1 by (simp add: parse_loop_append Let_def)
  ultimately show ?thesis
    by (simp add: parse_showtimes_from_html_def map_of_sorted_entries)
qed

lemma parse_block_without_cinema:
  assumes "\<forall>t. A_tag (Some t) \<notin> set pre"
  shows "parse_showtimes_from_html (pre @ Div_tag texts # post)
           = parse_showtimes_from_html (pre @ post)"
proof -
  have "parse_loop [] N_A (pre @ Div_tag texts # post) = parse_loop [] N_A (pre @ post)"
    using current_after_not_introduced [OF assms, of N_A]
    by (simp add: parse_loop_append Let_def cong: sum.case_cong)
  then show ?thesis by (simp add: parse_showtimes_from_html_def)
qed

text \<open>
  C8, as stated, fails: a cinema-name anchor followed by no time block is not ignored. The
  cinema gets an entry, with an empty list of times, where the claim has the empty result.
\<close>

theorem parse_cinema_without_times_counterexample:
  "parse_showtimes_from_html [A_tag (Some (str ''GSC''))] = Inr [(str ''GSC'', [])]
   \<and> parse_showtimes_from_html [A_tag (Some (str ''GSC''))] \<noteq> Inr []"
  by (simp add: parse_showtimes_from_html_def str_def strip_def is_space_def N_A_def)

text \<open>
  C8, amended: every cinema-name anchor with a bolded name contributes an entry to the
  extraction result, whether or not a time block follows it; the entry's list of times is
  empty when the name is introduced nowhere else on the page and the anchor is the last
  element or is directly followed by the anchor of another cinema. A time block met before
  any cinema has been introduced is ignored: the result is the one of the page without it.
\<close>

theorem parse_cinema_without_times:
  "(A_tag (Some t) \<in> set elems \<longrightarrow>
      (\<exists>st ts. parse_showtimes_from_html elems = Inr st \<and> map_of st (strip t) = Some ts))
   \<and> ((\<forall>t'. A_tag (Some t') \<in> set (pre @ post) \<longrightarrow> strip t' \<noteq> strip t)
        \<and> (post = [] \<or> (\<exists>t' post'. post = A_tag (Some t') # post')) \<longrightarrow>
      (\<exists>st. parse_showtimes_from_html (pre @ A_tag (Some t) # post) = Inr st
            \<and> map_of st (strip t) = Some []))
   \<and> ((\<forall>t'. A_tag (Some t') \<notin> set before) \<longrightarrow>
      parse_showtimes_from_html (before @ Div_tag texts # after)
        = parse_showtimes_from_html (before @ after))"
proof (intro conjI impI)
  assume "A_tag (Some t) \<in> set elems"
  then show "\<exists>st ts. parse_showtimes_from_html elems = Inr st \<and> map_of st (strip t) = Some ts"
    by (rule parse_introduced_has_entry)
next
  assume a: "(\<forall>t'. A_tag (Some t') \<in> set (pre @ post) \<longrightarrow> strip t' \<noteq> strip t)
        \<and> (post = [] \<or> (\<exists>t' post'. post = A_tag (Some t') # post'))"
  then have "strip t \<notin> introduced pre" and "strip t \<notin> introduced post"
    by (auto simp add: introduced_iff)
  with a show "\<exists>st. parse_showtimes_from_html (pre @ A_tag (Some t) # post) = Inr st
            \<and> map_of st (strip t) = Some []"
    by (intro parse_introduced_empty) auto
next
  assume "\<forall>t'. A_tag (Some t') \<notin> set before"
  then show "parse_showtimes_from_html (before @ Div_tag texts # after)
        = parse_showtimes_from_html (before @ after)"
    by (rule parse_block_without_cinema)
qed

theorem parse_cinema_without_times_witness:
  "parse_showtimes_from_html
     [A_tag (Some (str ''GSC'')), A_tag (Some (str ''TGV'')), Div_tag [str ''12:00'']]
     = Inr [(str ''GSC'', []), (str ''TGV'', [str ''12:00''])]
   \<and> parse_showtimes_from_html [Div_tag [str ''11:00''], A_tag (Some (str ''GSC''))]
     = parse_showtimes_from_html [A_tag (Some (str ''GSC''))]
   \<and> parse_showtimes_from_html [A_tag (Some (str ''GSC''))] = Inr [(str ''GSC'', [])]"
  using parse_cinema_without_times
    [of "str ''GSC''" "[A_tag (Some (str ''GSC''))]" "[]"
        "[A_tag (Some (str ''TGV'')), Div_tag [str ''12:00'']]" "[]" "[str ''11:00'']"
        "[A_tag (Some (str ''GSC''))]"]
  by (simp add: parse_showtimes_from_html_def str_def strip_def is_space_def N_A_def)


section \<open>Properties of the reconciler\<close>

lemma Movie_Title_neq_Scrape_Date: "Movie_Title \<noteq> Scrape_Date"
  by (simp add: Movie_Title_def Scrape_Date_def str_def)

lemma update_fields_absent:
  "k \<notin> fst ` set items \<Longrightarrow> map_of (update_fields entry items) k = map_of entry k"
  by (induction entry items rule: update_fields.induct) (auto simp add: map_of_update_other)

lemma update_fields_lookup:
  "distinct (map fst items) \<Longrightarrow>
   map_of (update_fields entry items) k =
     (case map_of items k of
        None \<Rightarrow> map_of entry k
      | Some v \<Rightarrow> if truthy v \<and> v \<noteq> PStr N_A then Some v else map_of entry k)"
proof (induction entry items rule: update_fields.induct)
  case (1 entry)
  then show ?case by simp
next
  case (2 entry key val items)
  show ?case
  proof (cases "k = key")
    case True
    with 2(2) have "k \<notin> fst ` set items" by auto
    then have "map_of (update_fields (if truthy val \<and> val \<noteq> PStr N_A
        then AList.update key val entry else entry) items) k
      = map_of (if truthy val \<and> val \<noteq> PStr N_A then AList.update key val entry else entry) k"
      by (rule update_fields_absent)
    with True show ?thesis by (simp add: map_of_update_same)
  next
    case False
    from 2(2) have "distinct (map fst items)" by simp
    from 2(1) [OF this] False show ?thesis
      by (simp add: map_of_update_other split: option.split)
  qed
qed

lemma update_fields_real:
  "real_value (map_of entry k) \<Longrightarrow> real_value (map_of (update_fields entry items) k)"
proof (induction entry items rule: update_fields.induct)
  case (1 entry)
  then show ?case by simp
next
  case (2 entry key val items)
  have "real_value (map_of (if truthy val \<and> val \<noteq> PStr N_A
        then AList.update key val entry else entry) k)"
    using 2(2) by (cases "k = key") (auto simp add: map_of_update_same map_of_update_other real_value_def)
  from 2(1) [OF this] show ?case by simp
qed

lemma update_existing_real:
  "update_existing entry movie = Inr entry' \<Longrightarrow> k \<noteq> Scrape_Date \<Longrightarrow>
   real_value (map_of entry k) \<Longrightarrow> real_value (map_of entry' k)"
  by (auto simp add: update_existing_def Let_def map_of_update_other update_fields_real
      split: option.splits)

lemma update_existing_lookup:
  "update_existing entry movie = Inr entry' \<Longrightarrow> k \<noteq> Scrape_Date \<Longrightarrow>
   distinct (map fst movie) \<Longrightarrow>
   map_of entry' k =
     (case map_of movie k of
        None \<Rightarrow> map_of entry k
      | Some v \<Rightarrow> if truthy v \<and> v \<noteq> PStr N_A then Some v else map_of entry k)"
  by (auto simp add: update_existing_def Let_def map_of_update_other update_fields_lookup
      split: option.splits)

lemma update_existing_scrape_date:
  "update_existing entry movie = Inr entry' \<Longrightarrow>
   map_of entry' Scrape_Date = map_of movie Scrape_Date"
  by (auto simp add: update_existing_def Let_def map_of_update_same split: option.splits)

lemma merge_loop_append:
  "merge_loop updated_data (xs @ ys) =
     (case merge_loop updated_data xs of
        Inl e \<Rightarrow> Inl e
      | Inr u \<Rightarrow> merge_loop u ys)"
  by (induction updated_data xs rule: merge_loop.induct)
     (simp_all split: option.split sum.split)

lemma merge_loop_untouched:
  "merge_loop updated_data fresh = Inr u \<Longrightarrow>
   \<forall>m \<in> set fresh. map_of m Movie_Title \<noteq> Some T \<Longrightarrow>
   map_of u T = map_of updated_data T"
proof (induction updated_data fresh rule: merge_loop.induct)
  case (1 updated_data)
  then show ?case by simp
next
  case (2 updated_data movie fresh_data)
  from 2(3) obtain title where t: "map_of movie Movie_Title = Some title"
    by (auto split: option.splits)
  with 2(4) have ne: "T \<noteq> title" by auto
  from 2(4) have rest: "\<forall>m \<in> set fresh_data. map_of m Movie_Title \<noteq> Some T" by simp
  show ?case
  proof (cases "map_of updated_data title")
    case None
    with 2(3) t have "merge_loop (AList.update title movie updated_data) fresh_data = Inr u"
      by simp
    from 2(1) [OF t None this rest] ne show ?thesis by (simp add: map_of_update_other)
  next
    case (Some entry)
    with 2(3) t obtain entry' where u: "update_existing entry movie = Inr entry'"
      and run: "merge_loop (AList.update title entry' updated_data) fresh_data = Inr u"
      by (auto split: sum.splits)
    from 2(2) [OF t Some u run rest] ne show ?thesis by (simp add: map_of_update_other)
  qed
qed

lemma merge_loop_step:
  "merge_loop updated_data [movie] = Inr u \<Longrightarrow> map_of movie Movie_Title = Some T \<Longrightarrow>
   (case map_of updated_data T of
      None \<Rightarrow> map_of u T = Some movie
    | Some entry \<Rightarrow> (\<exists>entry'. update_existing entry movie = Inr entry' \<and> map_of u T = Some entry'))"
  by (auto simp add: map_of_update_same split: option.splits sum.splits)

lemma merge_loop_distinct:
  "merge_loop updated_data fresh = Inr u \<Longrightarrow> distinct (map fst updated_data) \<Longrightarrow>
   distinct (map fst u)"
proof (induction updated_data fresh rule: merge_loop.induct)
  case (1 updated_data)
  then show ?case by simp
next
  case (2 updated_data movie fresh_data)
  from 2(3) obtain title where t: "map_of movie Movie_Title = Some title"
    by (auto split: option.splits)
  show ?case
  proof (cases "map_of updated_data title")
    case None
    with 2(3) t have "merge_loop (AList.update title movie updated_data) fresh_data = Inr u"
      by simp
    from 2(1) [OF t None this] 2(4) show ?thesis by (simp add: distinct_update)
  next
    case (Some entry)
    with 2(3) t obtain entry' where u: "update_existing entry movie = Inr entry'"
      and run: "merge_loop (AList.update title entry' updated_data) fresh_data = Inr u"
      by (auto split: sum.splits)
    from 2(2) [OF t Some u run] 2(4) show ?thesis by (simp add: distinct_update)
  qed
qed

lemma sorted_by_title_mset:
  "sorted_by_title xs = Inr out \<Longrightarrow> mset out = mset xs"
  by (auto simp add: sorted_by_title_def split: if_splits)

lemma merge_data_Inr:
  "merge_data existing fresh = Inr out \<Longrightarrow>
   \<exists>u. merge_loop existing fresh = Inr u \<and> sorted_by_title (map snd u) = Inr out
        \<and> mset out = mset (map snd u)"
  by (auto simp add: merge_data_def sorted_by_title_mset split: sum.splits)

lemma merged_entry_in_output:
  assumes "mset out = mset (map snd u)" "map_of u T = Some r"
  shows "r \<in> set out"
proof -
  from assms(2) have "(T, r) \<in> set u" by (rule map_of_SomeD)
  then have "r \<in> set (map snd u)" by force
  with assms(1) show ?thesis by (metis set_mset_mset)
qed

lemmas example_defs = movie_A_earlier_def movie_A_later_def movie_A_folded_def movie_A_undated_def
  movie_B_def movie_C_def Movie_Title_def Scrape_Date_def N_A_def str_def

lemma merge_loop_split:
  assumes "merge_loop existing (pre @ movie # post) = Inr u"
  shows "\<exists>u1 u2. merge_loop existing pre = Inr u1 \<and> merge_loop u1 [movie] = Inr u2
           \<and> merge_loop u2 post = Inr u"
proof -
  from assms obtain u1 where 1: "merge_loop existing pre = Inr u1"
    and r: "merge_loop u1 ([movie] @ post) = Inr u"
    by (auto simp add: merge_loop_append split: sum.splits)
  from r obtain u2 where "merge_loop u1 [movie] = Inr u2" and "merge_loop u2 post = Inr u"
    unfolding merge_loop_append by (auto split: sum.splits)
  with 1 show ?thesis by blast
qed

lemma merge_scrape_date_if_returns:
  assumes "merge_data existing (pre @ movie # post) = Inr out"
    and "map_of movie Movie_Title = Some T"
    and "\<forall>m \<in> set post. map_of m Movie_Title \<noteq> Some T"
  shows "\<exists>u r. merge_loop existing (pre @ movie # post) = Inr u \<and> map_of u T = Some r
           \<and> r \<in> set out \<and> map_of r Scrape_Date = map_of movie Scrape_Date"
proof -
  from merge_data_Inr [OF assms(1)] obtain u
    where run: "merge_loop existing (pre @ movie # post) = Inr u"
      and out: "mset out = mset (map snd u)" by auto
  from merge_loop_split [OF run] obtain u1 u2
    where 1: "merge_loop existing pre = Inr u1" and 2: "merge_loop u1 [movie] = Inr u2"
      and 3: "merge_loop u2 post = Inr u" by auto
  from merge_loop_step [OF 2 assms(2)]
  obtain r where r: "map_of u2 T = Some r" "map_of r Scrape_Date = map_of movie Scrape_Date"
    by (auto split: option.splits dest: update_existing_scrape_date)
  from merge_loop_untouched [OF 3 assms(3)] r have "map_of u T = Some r" by simp
  with run out r show ?thesis by (auto intro: merged_entry_in_output)
qed

lemma merge_loop_entry_invariant:
  assumes step: "\<And>entry movie entry'. P entry \<Longrightarrow> update_existing entry movie = Inr entry' \<Longrightarrow> P entry'"
  shows "merge_loop updated_data fresh = Inr u \<Longrightarrow> map_of updated_data T = Some entry \<Longrightarrow>
    P entry \<Longrightarrow> \<exists>r. map_of u T = Some r \<and> P r"
proof (induction updated_data fresh arbitrary: entry rule: merge_loop.induct)
  case (1 updated_data)
  then show ?case by simp
next
  case (2 updated_data movie fresh_data)
  from 2(3) obtain title where t: "map_of movie Movie_Title = Some title"
    by (auto split: option.splits)
  show ?case
  proof (cases "map_of updated_data title")
    case None
    with 2(3) t have run: "merge_loop (AList.update title movie updated_data) fresh_data = Inr u"
      by simp
    from None 2(4) have "title \<noteq> T" by auto
    with 2(4) have "map_of (AList.update title movie updated_data) T = Some entry"
      by (simp add: map_of_update_other)
    from 2(1) [OF t None run this 2(5)] show ?thesis .
  next
    case (Some old)
    with 2(3) t obtain entry' where u: "update_existing old movie = Inr entry'"
      and run: "merge_loop (AList.update title entry' updated_data) fresh_data = Inr u"
      by (auto split: sum.splits)
    show ?thesis
    proof (cases "title = T")
      case True
      with Some 2(4) have "old = entry" by simp
      with u 2(5) have "P entry'" by (auto dest: step)
      moreover from True have "map_of (AList.update title entry' updated_data) T = Some entry'"
        by (simp add: map_of_update_same)
      ultimately show ?thesis using 2(2) [OF t Some u run] by blast
    next
      case False
      with 2(4) have "map_of (AList.update title entry' updated_data) T = Some entry"
        by (simp add: map_of_update_other)
      from 2(2) [OF t Some u run this 2(5)] show ?thesis .
    qed
  qed
qed

text \<open>
  C1, as stated, fails on the scrape date: it is overwritten unconditionally, so a fresh record
  whose scrape date is the sentinel replaces the real scrape date of the existing record.
\<close>

theorem merge_field_regression_counterexample:
  "real_value (map_of movie_A_earlier Scrape_Date)
   \<and> merge_data [(PStr (str ''Movie A''), movie_A_earlier)] [movie_A_undated] = Inr [movie_A_undated]
   \<and> \<not> real_value (map_of movie_A_undated Scrape_Date)"
  by (simp add: merge_data_def sorted_by_title_def update_existing_def title_key_def real_value_def example_defs)

text \<open>
  C1, amended: for a title present in the existing collection and every field other than
  the scrape date, the merged record holds a real value for the field whenever the existing
  record did; and when exactly one record of the fresh batch carries the title, the merged
  field is the fresh value if that is truthy and not the sentinel, and the existing value
  otherwise.
\<close>

theorem merge_field_non_regression:
  assumes "merge_data existing fresh = Inr out"
    and "map_of existing T = Some old"
    and "field \<noteq> Scrape_Date"
  shows "\<exists>u new. merge_loop existing fresh = Inr u \<and> map_of u T = Some new \<and> new \<in> set out
     \<and> (real_value (map_of old field) \<longrightarrow> real_value (map_of new field))
     \<and> (\<forall>pre movie post.
          fresh = pre @ movie # post \<and> map_of movie Movie_Title = Some T
          \<and> (\<forall>m \<in> set (pre @ post). map_of m Movie_Title \<noteq> Some T)
          \<and> distinct (map fst movie) \<longrightarrow>
          map_of new field =
            (case map_of movie field of
               None \<Rightarrow> map_of old field
             | Some v \<Rightarrow> if truthy v \<and> v \<noteq> PStr N_A then Some v else map_of old field))"
proof -
  from merge_data_Inr [OF assms(1)] obtain u
    where run: "merge_loop existing fresh = Inr u"
      and out: "mset out = mset (map snd u)" by auto
  from merge_loop_entry_invariant [of "\<lambda>e. True", OF _ run assms(2)]
  obtain new where new: "map_of u T = Some new" by auto
  have keep: "real_value (map_of old field) \<longrightarrow> real_value (map_of new field)"
  proof
    assume r: "real_value (map_of old field)"
    have "\<exists>r. map_of u T = Some r \<and> real_value (map_of r field)"
      using run assms(2) r
      by (rule merge_loop_entry_invariant [rotated]) (rule update_existing_real [OF _ assms(3)])
    with new show "real_value (map_of new field)" by simp
  qed
  have single: "map_of new field =
            (case map_of movie field of
               None \<Rightarrow> map_of old field
             | Some v \<Rightarrow> if truthy v \<and> v \<noteq> PStr N_A then Some v else map_of old field)"
    if f: "fresh = pre @ movie # post" and t: "map_of movie Movie_Title = Some T"
      and others: "\<forall>m \<in> set (pre @ post). map_of m Movie_Title \<noteq> Some T"
      and d: "distinct (map fst movie)" for pre movie post
  proof -
    from merge_loop_split [OF run [unfolded f]] obtain u1 u2
      where 1: "merge_loop existing pre = Inr u1" and 2: "merge_loop u1 [movie] = Inr u2"
        and 3: "merge_loop u2 post = Inr u" by auto
    from others have op: "\<forall>m \<in> set pre. map_of m Movie_Title \<noteq> Some T"
      and oq: "\<forall>m \<in> set post. map_of m Movie_Title \<noteq> Some T" by auto
    from merge_loop_untouched [OF 1 op] assms(2) have "map_of u1 T = Some old" by simp
    with merge_loop_step [OF 2 t] obtain e where e: "update_existing old movie = Inr e"
      and "map_of u2 T = Some e" by auto
    with merge_loop_untouched [OF 3 oq] new have "new = e" by simp
    with update_existing_lookup [OF e assms(3) d] show ?thesis by simp
  qed
  from run new keep single merged_entry_in_output [OF out new] show ?thesis by blast
qed

theorem merge_field_non_regression_witness:
  "merge_data [(PStr (str ''Movie A''), movie_A_earlier)] [movie_A_later] = Inr [movie_A_folded]
   \<and> map_of movie_A_folded (str ''Genre'') = Some (PStr (str ''Action''))
   \<and> map_of movie_A_folded (str ''Genre'') = map_of movie_A_earlier (str ''Genre'')"
proof -
  have h1: "merge_data [(PStr (str ''Movie A''), movie_A_earlier)] [movie_A_later] = Inr [movie_A_folded]"
    by (simp add: merge_data_def sorted_by_title_def update_existing_def title_key_def example_defs)
  have h2: "map_of [(PStr (str ''Movie A''), movie_A_earlier)] (PStr (str ''Movie A'')) = Some movie_A_earlier"
    by simp
  have h3: "str ''Genre'' \<noteq> Scrape_Date" by (simp add: example_defs)
  from merge_field_non_regression [OF h1 h2 h3] obtain new
    where new: "new \<in> set [movie_A_folded]"
      and keep: "real_value (map_of movie_A_earlier (str ''Genre'')) \<longrightarrow>
                 real_value (map_of new (str ''Genre''))"
      and single: "\<forall>pre movie post.
          [movie_A_later] = pre @ movie # post \<and> map_of movie Movie_Title = Some (PStr (str ''Movie A''))
          \<and> (\<forall>m \<in> set (pre @ post). map_of m Movie_Title \<noteq> Some (PStr (str ''Movie A'')))
          \<and> distinct (map fst movie) \<longrightarrow>
          map_of new (str ''Genre'') =
            (case map_of movie (str ''Genre'') of
               None \<Rightarrow> map_of movie_A_earlier (str ''Genre'')
             | Some v \<Rightarrow> if truthy v \<and> v \<noteq> PStr N_A then Some v
                 else map_of movie_A_earlier (str ''Genre''))"
    by blast
  from new have n: "new = movie_A_folded" by simp
  have "[movie_A_later] = [] @ movie_A_later # [] \<and>
        map_of movie_A_later Movie_Title = Some (PStr (str ''Movie A''))
        \<and> (\<forall>m \<in> set ([] @ []). map_of m Movie_Title \<noteq> Some (PStr (str ''Movie A'')))
        \<and> distinct (map fst movie_A_later)"
    by (simp add: example_defs)
  with single have "map_of new (str ''Genre'') =
            (case map_of movie_A_later (str ''Genre'') of
               None \<Rightarrow> map_of movie_A_earlier (str ''Genre'')
             | Some v \<Rightarrow> if truthy v \<and> v \<noteq> PStr N_A then Some v
                 else map_of movie_A_earlier (str ''Genre''))"
    by blast
  then have "map_of movie_A_folded (str ''Genre'') = map_of movie_A_earlier (str ''Genre'')"
    unfolding n by (simp add: example_defs)
  moreover have "map_of movie_A_earlier (str ''Genre'') = Some (PStr (str ''Action''))"
    by (simp add: example_defs)
  ultimately show ?thesis using h1 by simp
qed

lemma merge_loop_fold_existing:
  "merge_loop updated_data fresh = Inr u \<Longrightarrow> map_of updated_data T = Some entry \<Longrightarrow>
   \<exists>r. map_of u T = Some r \<and> fold_updates entry (filter (has_title T) fresh) = Inr r"
proof (induction updated_data fresh arbitrary: entry rule: merge_loop.induct)
  case (1 updated_data)
  then show ?case by simp
next
  case (2 updated_data movie fresh_data)
  from 2(3) obtain title where t: "map_of movie Movie_Title = Some title"
    by (auto split: option.splits)
  show ?case
  proof (cases "map_of updated_data title")
    case None
    with 2(3) t have run: "merge_loop (AList.update title movie updated_data) fresh_data = Inr u"
      by simp
    from None 2(4) have ne: "title \<noteq> T" by auto
    with 2(4) have "map_of (AList.update title movie updated_data) T = Some entry"
      by (simp add: map_of_update_other)
    from 2(1) [OF t None run this] t ne show ?thesis by simp
  next
    case (Some old)
    with 2(3) t obtain entry' where u: "update_existing old movie = Inr entry'"
      and run: "merge_loop (AList.update title entry' updated_data) fresh_data = Inr u"
      by (auto split: sum.splits)
    show ?thesis
    proof (cases "title = T")
      case True
      with Some 2(4) have old: "old = entry" by simp
      from True have "map_of (AList.update title entry' updated_data) T = Some entry'"
        by (simp add: map_of_update_same)
      from 2(2) [OF t Some u run this] t True u old show ?thesis by simp
    next
      case False
      with 2(4) have "map_of (AList.update title entry' updated_data) T = Some entry"
        by (simp add: map_of_update_other)
      from 2(2) [OF t Some u run this] t False show ?thesis by simp
    qed
  qed
qed

lemma merge_loop_fold_new:
  "merge_loop updated_data fresh = Inr u \<Longrightarrow> map_of updated_data T = None \<Longrightarrow>
   filter (has_title T) fresh = d # ds \<Longrightarrow>
   \<exists>r. map_of u T = Some r \<and> fold_updates d ds = Inr r"
proof (induction updated_data fresh rule: merge_loop.induct)
  case (1 updated_data)
  then show ?case by simp
next
  case (2 updated_data movie fresh_data)
  from 2(3) obtain title where t: "map_of movie Movie_Title = Some title"
    by (auto split: option.splits)
  show ?case
  proof (cases "title = T")
    case True
    with 2(4) 2(3) t have run: "merge_loop (AList.update T movie updated_data) fresh_data = Inr u"
      by simp
    from True t 2(5) have d: "d = movie" and ds: "ds = filter (has_title T) fresh_data" by auto
    have "map_of (AList.update T movie updated_data) T = Some movie"
      by (simp add: map_of_update_same)
    from merge_loop_fold_existing [OF run this] d ds show ?thesis by simp
  next
    case False
    with t 2(5) have f: "filter (has_title T) fresh_data = d # ds" by simp
    show ?thesis
    proof (cases "map_of updated_data title")
      case None
      with 2(3) t have run: "merge_loop (AList.update title movie updated_data) fresh_data = Inr u"
        by simp
      from False 2(4) have "map_of (AList.update title movie updated_data) T = None"
        by (simp add: map_of_update_other)
      from 2(1) [OF t None run this f] show ?thesis .
    next
      case (Some old)
      with 2(3) t obtain entry' where u: "update_existing old movie = Inr entry'"
        and run: "merge_loop (AList.update title entry' updated_data) fresh_data = Inr u"
        by (auto split: sum.splits)
      from False 2(4) have "map_of (AList.update title entry' updated_data) T = None"
        by (simp add: map_of_update_other)
      from 2(2) [OF t Some u run this f] show ?thesis .
    qed
  qed
qed

lemma merge_duplicates_fold_if_returns:
  assumes "merge_data existing fresh = Inr out"
    and "distinct (map fst existing)"
    and "filter (\<lambda>m. map_of m Movie_Title = Some T) fresh = d # ds"
  shows "\<exists>u r. merge_loop existing fresh = Inr u \<and> distinct (map fst u)
     \<and> length out = length u \<and> map_of u T = Some r \<and> r \<in> set out
     \<and> (case map_of existing T of
          None \<Rightarrow> fold_updates d ds = Inr r
        | Some old \<Rightarrow> fold_updates old (d # ds) = Inr r)"
proof -
  from merge_data_Inr [OF assms(1)] obtain u
    where run: "merge_loop existing fresh = Inr u"
      and out: "mset out = mset (map snd u)" by auto
  from out have len: "length out = length u" by (metis length_map size_mset)
  from merge_loop_distinct [OF run assms(2)] have dist: "distinct (map fst u)" .
  have "\<exists>r. map_of u T = Some r
     \<and> (case map_of existing T of
          None \<Rightarrow> fold_updates d ds = Inr r
        | Some old \<Rightarrow> fold_updates old (d # ds) = Inr r)"
  proof (cases "map_of existing T")
    case None
    from merge_loop_fold_new [OF run None assms(3)] None show ?thesis by simp
  next
    case (Some old)
    from merge_loop_fold_existing [OF run Some] assms(3) Some show ?thesis by simp
  qed
  then obtain r where r: "map_of u T = Some r" "(case map_of existing T of
          None \<Rightarrow> fold_updates d ds = Inr r
        | Some old \<Rightarrow> fold_updates old (d # ds) = Inr r)" by blast
  from run dist len r merged_entry_in_output [OF out r(1)] show ?thesis by blast
qed





lemma set_update_cases:
  "p \<in> set (AList.update k v al) \<Longrightarrow> p = (k, v) \<or> p \<in> set al"
  by (induction al) (auto split: if_splits)




lemma update_existing_str_titled:
  assumes "update_existing entry movie = Inr entry'" "distinct (map fst movie)"
    "str_titled entry" "str_titled movie"
  shows "str_titled entry'"
  using update_existing_lookup [OF assms(1) Movie_Title_neq_Scrape_Date assms(2)] assms(3,4)
  by (auto simp add: str_titled_def title_key_def split: option.splits if_splits)

lemma merge_loop_returns:
  "\<forall>m \<in> set fresh. complete_record m \<Longrightarrow>
   \<forall>r \<in> snd ` set updated_data. str_titled r \<Longrightarrow>
   \<exists>u. merge_loop updated_data fresh = Inr u \<and> (\<forall>r \<in> snd ` set u. str_titled r)"
proof (induction updated_data fresh rule: merge_loop.induct)
  case (1 updated_data)
  then show ?case by simp
next
  case (2 updated_data movie fresh_data)
  from 2(3) obtain title sd where t: "map_of movie Movie_Title = Some title"
    and sd: "map_of movie Scrape_Date = Some sd" and st: "str_titled movie"
    and d: "distinct (map fst movie)" by (auto simp add: complete_record_def)
  from 2(3) have rest: "\<forall>m \<in> set fresh_data. complete_record m" by simp
  show ?case
  proof (cases "map_of updated_data title")
    case None
    have "\<forall>r \<in> snd ` set (AList.update title movie updated_data). str_titled r"
      using 2(4) st by (auto dest!: set_update_cases)
    from 2(1) [OF t None rest this] t None show ?thesis by simp
  next
    case (Some old)
    from sd obtain entry' where u: "update_existing old movie = Inr entry'"
      by (simp add: update_existing_def)
    from Some have "(title, old) \<in> set updated_data" by (rule map_of_SomeD)
    with 2(4) have "str_titled old" by force
    from update_existing_str_titled [OF u d this st]
    have "\<forall>r \<in> snd ` set (AList.update title entry' updated_data). str_titled r"
      using 2(4) by (auto dest!: set_update_cases)
    from 2(2) [OF t Some u rest this] t Some u show ?thesis by simp
  qed
qed

text \<open>
  \<^verbatim>\<open>merge_data\<close> returns a list, without raising, on the input it is written for:
  fresh records with a string title and a scrape date, and existing records whose sort key
  is a string.
\<close>

lemma merge_data_returns:
  assumes "\<forall>m \<in> set fresh. complete_record m"
    and "\<forall>r \<in> snd ` set existing. str_titled r"
  shows "\<exists>out. merge_data existing fresh = Inr out"
proof -
  from merge_loop_returns [OF assms] obtain u where u: "merge_loop existing fresh = Inr u"
    and s: "\<forall>r \<in> snd ` set u. str_titled r" by auto
  from s have "list_all (\<lambda>x. is_str (title_key x)) (map snd u)"
    by (auto simp add: list_all_iff str_titled_def)
  then have "\<exists>out. sorted_by_title (map snd u) = Inr out"
    by (simp add: sorted_by_title_def)
  with u show ?thesis by (simp add: merge_data_def)
qed


text \<open>The claims on what \<^verbatim>\<open>merge_data\<close> returns.\<close>

lemmas more_example_defs = movie_A_first_def movie_A_second_def movie_A_both_def
  movie_1917_sheet_def movie_1917_fresh_def

lemmas merge_eval = merge_data_def sorted_by_title_def update_existing_def title_key_def

lemma fold_updates_lookup:
  "fold_updates entry ms = Inr r \<Longrightarrow> \<forall>m \<in> set ms. distinct (map fst m) \<Longrightarrow>
   field \<noteq> Scrape_Date \<Longrightarrow>
   map_of r field =
     (case last_real_value field ms of Some v \<Rightarrow> Some v | None \<Rightarrow> map_of entry field)"
proof (induction entry ms rule: fold_updates.induct)
  case (1 entry)
  then show ?case by simp
next
  case (2 entry movie movies)
  from 2(2) obtain entry' where u: "update_existing entry movie = Inr entry'"
    and f: "fold_updates entry' movies = Inr r" by (auto split: sum.splits)
  from 2(3) have d: "distinct (map fst movie)" and ds: "\<forall>m \<in> set movies. distinct (map fst m)"
    by auto
  from 2(1) [OF u f ds 2(4)]
  have ih: "map_of r field =
     (case last_real_value field movies of Some v \<Rightarrow> Some v | None \<Rightarrow> map_of entry' field)" .
  from update_existing_lookup [OF u 2(4) d]
  have e': "map_of entry' field =
     (case map_of movie field of
        None \<Rightarrow> map_of entry field
      | Some v \<Rightarrow> if truthy v \<and> v \<noteq> PStr N_A then Some v else map_of entry field)" .
  show ?case
  proof (cases "last_real_value field movies")
    case (Some v)
    with ih show ?thesis by simp
  next
    case None
    with ih e' show ?thesis
      by (cases "map_of movie field") (auto simp add: real_value_def)
  qed
qed

lemma fold_updates_scrape_date:
  "fold_updates entry ms = Inr r \<Longrightarrow> ms \<noteq> [] \<Longrightarrow>
   map_of r Scrape_Date = map_of (last ms) Scrape_Date"
proof (induction entry ms rule: fold_updates.induct)
  case (1 entry)
  then show ?case by simp
next
  case (2 entry movie movies)
  from 2(2) obtain entry' where u: "update_existing entry movie = Inr entry'"
    and f: "fold_updates entry' movies = Inr r" by (auto split: sum.splits)
  show ?case
  proof (cases movies)
    case Nil
    with f u show ?thesis by (auto dest: update_existing_scrape_date)
  next
    case (Cons m ms')
    then have "movies \<noteq> []" by simp
    from 2(1) [OF u f this] Cons show ?thesis by simp
  qed
qed



text \<open>
  C5: for every title present in the fresh batch, the merged record's scrape date is the
  one of the fresh record, whatever its other fields hold. The fresh record of a title is
  the last record of the batch that carries it; the merged record is the entry of
  \<^verbatim>\<open>updated_data\<close> under the title, and it is in the list that \<^verbatim>\<open>merge_data\<close> returns.
  That holds of every list the function returns; and it returns one, with such a record in
  it, for fresh records that have a string title and a scrape date and existing records
  whose title is a string, whether the title is new or already there.
\<close>

theorem merge_scrape_date:
  assumes "map_of movie Movie_Title = Some T"
    and "\<forall>m \<in> set post. map_of m Movie_Title \<noteq> Some T"
  shows "(\<forall>out. merge_data existing (pre @ movie # post) = Inr out \<longrightarrow>
            (\<exists>u r. merge_loop existing (pre @ movie # post) = Inr u \<and> map_of u T = Some r
               \<and> r \<in> set out \<and> map_of r Scrape_Date = map_of movie Scrape_Date))
     \<and> ((\<forall>m \<in> set (pre @ movie # post). complete_record m)
          \<and> (\<forall>r \<in> snd ` set existing. str_titled r) \<longrightarrow>
            (\<exists>out u r. merge_data existing (pre @ movie # post) = Inr out
               \<and> merge_loop existing (pre @ movie # post) = Inr u \<and> map_of u T = Some r
               \<and> r \<in> set out \<and> map_of r Scrape_Date = map_of movie Scrape_Date))"
proof (intro conjI allI impI)
  fix out assume "merge_data existing (pre @ movie # post) = Inr out"
  from merge_scrape_date_if_returns [OF this assms]
  show "\<exists>u r. merge_loop existing (pre @ movie # post) = Inr u \<and> map_of u T = Some r
               \<and> r \<in> set out \<and> map_of r Scrape_Date = map_of movie Scrape_Date" .
next
  assume wf: "(\<forall>m \<in> set (pre @ movie # post). complete_record m)
          \<and> (\<forall>r \<in> snd ` set existing. str_titled r)"
  then obtain out where out: "merge_data existing (pre @ movie # post) = Inr out"
    using merge_data_returns [of "pre @ movie # post" existing] by blast
  from merge_scrape_date_if_returns [OF out assms] out
  show "\<exists>out u r. merge_data existing (pre @ movie # post) = Inr out
               \<and> merge_loop existing (pre @ movie # post) = Inr u \<and> map_of u T = Some r
               \<and> r \<in> set out \<and> map_of r Scrape_Date = map_of movie Scrape_Date" by blast
qed

theorem merge_scrape_date_witness:
  "merge_data [(PStr (str ''Movie B''), movie_B)] [movie_A_later] = Inr [movie_A_later, movie_B]
   \<and> (\<exists>r \<in> set [movie_A_later, movie_B].
         map_of r Movie_Title = Some (PStr (str ''Movie A''))
         \<and> map_of r Scrape_Date = Some (PStr (str ''2024-02-01'')))
   \<and> merge_data [(PStr (str ''Movie A''), movie_A_earlier)] [movie_A_later] = Inr [movie_A_folded]
   \<and> map_of movie_A_folded Scrape_Date = Some (PStr (str ''2024-02-01''))"
proof -
  let ?A = "PStr (str ''Movie A'')"
  have t: "map_of movie_A_later Movie_Title = Some ?A" by (simp add: example_defs)
  have l: "\<forall>m \<in> set []. map_of m Movie_Title \<noteq> Some ?A" by simp
  have sd: "map_of movie_A_later Scrape_Date = Some (PStr (str ''2024-02-01''))"
    by (simp add: example_defs)
  \<comment> \<open>a title that is new: the insert branch\<close>
  have new: "merge_data [(PStr (str ''Movie B''), movie_B)] ([] @ movie_A_later # [])
      = Inr [movie_A_later, movie_B]"
    by (simp add: merge_eval example_defs)
  have wf: "(\<forall>m \<in> set ([] @ movie_A_later # []). complete_record m)
      \<and> (\<forall>r \<in> snd ` set [(PStr (str ''Movie B''), movie_B)]. str_titled r)"
    by (simp add: complete_record_def str_titled_def title_key_def example_defs)
  from merge_scrape_date [OF t l, of "[(PStr (str ''Movie B''), movie_B)]" "[]"] wf
  obtain out u r where "merge_data [(PStr (str ''Movie B''), movie_B)] ([] @ movie_A_later # [])
      = Inr out" "merge_loop [(PStr (str ''Movie B''), movie_B)] ([] @ movie_A_later # []) = Inr u"
    "map_of u ?A = Some r" "r \<in> set out" "map_of r Scrape_Date = map_of movie_A_later Scrape_Date"
    by blast
  with new have r: "r \<in> set [movie_A_later, movie_B]"
    "map_of r Scrape_Date = Some (PStr (str ''2024-02-01''))"
    "map_of u ?A = Some r"
    "u = [(PStr (str ''Movie B''), movie_B), (?A, movie_A_later)]"
    by (auto simp add: sd example_defs)
  then have "r = movie_A_later" by (simp add: example_defs)
  with r t have 1: "\<exists>r \<in> set [movie_A_later, movie_B].
         map_of r Movie_Title = Some ?A
         \<and> map_of r Scrape_Date = Some (PStr (str ''2024-02-01''))" by (simp add: sd)
  \<comment> \<open>a title that exists: the update branch\<close>
  have old: "merge_data [(?A, movie_A_earlier)] ([] @ movie_A_later # []) = Inr [movie_A_folded]"
    by (simp add: merge_eval example_defs)
  from merge_scrape_date [OF t l, of "[(?A, movie_A_earlier)]" "[]"] old
  obtain r' where "r' \<in> set [movie_A_folded]"
    "map_of r' Scrape_Date = map_of movie_A_later Scrape_Date" by blast
  then have 2: "map_of movie_A_folded Scrape_Date = Some (PStr (str ''2024-02-01''))"
    by (simp add: sd)
  from new old 1 2 show ?thesis by simp
qed




text \<open>
  C9, as stated, fails: of two fresh records with the same new title, the first holds the
  genre and the second the director, each with the sentinel for the other field. The merged
  entry holds both, so its content is not that of the last duplicate.
\<close>

theorem merge_duplicates_lastwins_counterexample:
  "merge_data [] [movie_A_first, movie_A_second] = Inr [movie_A_both]
   \<and> merge_data [] [movie_A_first, movie_A_second] \<noteq> Inr [movie_A_second]"
  by (simp add: merge_eval example_defs more_example_defs)

text \<open>
  C9, amended: when the fresh batch holds several records with the same title (fresh
  records having a string title and a scrape date, existing records a string title), the
  merged collection has one entry for the title and the returned list one record per key.
  The scrape date of the entry is the one of the last duplicate. Every other field holds the
  value of the last duplicate, in batch order, that holds a truthy value other than the
  sentinel for it; when none does, the field is as in the existing record of the title, or,
  for a new title, as in the first duplicate. Here the duplicates that count are all of
  them for an existing title, and those after the first for a new one.
\<close>

theorem merge_duplicates_fields:
  assumes "filter (\<lambda>m. map_of m Movie_Title = Some T) fresh = d # ds"
    and "\<forall>m \<in> set fresh. complete_record m"
    and "\<forall>r \<in> snd ` set existing. str_titled r"
    and "distinct (map fst existing)"
  shows "\<exists>out u r. merge_data existing fresh = Inr out \<and> merge_loop existing fresh = Inr u
     \<and> distinct (map fst u) \<and> length out = length u \<and> map_of u T = Some r \<and> r \<in> set out
     \<and> map_of r Scrape_Date = map_of (last (d # ds)) Scrape_Date
     \<and> (\<forall>field. field \<noteq> Scrape_Date \<longrightarrow>
          map_of r field =
            (case map_of existing T of
               None \<Rightarrow>
                 (case last_real_value field ds of Some v \<Rightarrow> Some v | None \<Rightarrow> map_of d field)
             | Some old \<Rightarrow>
                 (case last_real_value field (d # ds) of
                    Some v \<Rightarrow> Some v
                  | None \<Rightarrow> map_of old field)))"
proof -
  from merge_data_returns [OF assms(2,3)] obtain out where out: "merge_data existing fresh = Inr out"
    by auto
  from merge_duplicates_fold_if_returns [OF out assms(4) assms(1)] obtain u r
    where u: "merge_loop existing fresh = Inr u" and du: "distinct (map fst u)"
      and len: "length out = length u" and r: "map_of u T = Some r" and mem: "r \<in> set out"
      and fold: "case map_of existing T of
          None \<Rightarrow> fold_updates d ds = Inr r
        | Some old \<Rightarrow> fold_updates old (d # ds) = Inr r" by blast
  have "set (d # ds) \<subseteq> set fresh" by (metis assms(1) filter_is_subset)
  with assms(2) have dist: "\<forall>m \<in> set (d # ds). distinct (map fst m)"
    by (auto simp add: complete_record_def)
  have sd: "map_of r Scrape_Date = map_of (last (d # ds)) Scrape_Date"
  proof (cases "map_of existing T")
    case None
    with fold have f: "fold_updates d ds = Inr r" by simp
    show ?thesis
    proof (cases "ds = []")
      case True
      with f show ?thesis by simp
    next
      case False
      from fold_updates_scrape_date [OF f False] False show ?thesis by simp
    qed
  next
    case (Some old)
    with fold have f: "fold_updates old (d # ds) = Inr r" by simp
    from fold_updates_scrape_date [OF f] show ?thesis by simp
  qed
  have fields: "map_of r field =
            (case map_of existing T of
               None \<Rightarrow>
                 (case last_real_value field ds of Some v \<Rightarrow> Some v | None \<Rightarrow> map_of d field)
             | Some old \<Rightarrow>
                 (case last_real_value field (d # ds) of
                    Some v \<Rightarrow> Some v
                  | None \<Rightarrow> map_of old field))" if ne: "field \<noteq> Scrape_Date" for field
  proof (cases "map_of existing T")
    case None
    with fold have f: "fold_updates d ds = Inr r" by simp
    from dist have "\<forall>m \<in> set ds. distinct (map fst m)" by simp
    from fold_updates_lookup [OF f this ne] None show ?thesis by simp
  next
    case (Some old)
    with fold have f: "fold_updates old (d # ds) = Inr r" by simp
    from fold_updates_lookup [OF f dist ne] Some show ?thesis by simp
  qed
  from out u du len r mem sd fields show ?thesis by blast
qed


theorem merge_duplicates_fields_witness:
  "merge_data [] [movie_A_first, movie_B, movie_A_second] = Inr [movie_A_both, movie_B]
   \<and> (\<exists>r \<in> set [movie_A_both, movie_B].
         map_of r Movie_Title = Some (PStr (str ''Movie A''))
         \<and> map_of r (str ''Genre'') = Some (PStr (str ''Action''))
         \<and> map_of r (str ''Director'') = Some (PStr (str ''Nolan''))
         \<and> map_of r Scrape_Date = Some (PStr (str ''2024-02-01 10:05:00'')))"
proof -
  let ?A = "PStr (str ''Movie A'')"
  let ?fresh = "[movie_A_first, movie_B, movie_A_second]"
  have h1: "merge_data [] ?fresh = Inr [movie_A_both, movie_B]"
    by (simp add: merge_eval example_defs more_example_defs)
  have dups: "filter (\<lambda>m. map_of m Movie_Title = Some ?A) ?fresh = movie_A_first # [movie_A_second]"
    by (simp add: example_defs more_example_defs)
  have wf: "\<forall>m \<in> set ?fresh. complete_record m"
    by (simp add: complete_record_def str_titled_def title_key_def example_defs more_example_defs)
  have ex: "\<forall>r \<in> snd ` set ([] :: collection). str_titled r" by simp
  have dist: "distinct (map fst ([] :: collection))" by simp
  from merge_duplicates_fields [OF dups wf ex dist] obtain out r
    where out: "merge_data [] ?fresh = Inr out" and mem: "r \<in> set out"
      and sd: "map_of r Scrape_Date = map_of (last (movie_A_first # [movie_A_second])) Scrape_Date"
      and fields: "\<forall>field. field \<noteq> Scrape_Date \<longrightarrow>
          map_of r field =
            (case map_of ([] :: collection) ?A of
               None \<Rightarrow>
                 (case last_real_value field [movie_A_second] of
                    Some v \<Rightarrow> Some v
                  | None \<Rightarrow> map_of movie_A_first field)
             | Some old \<Rightarrow>
                 (case last_real_value field (movie_A_first # [movie_A_second]) of
                    Some v \<Rightarrow> Some v
                  | None \<Rightarrow> map_of old field))"
    by blast
  from out h1 mem have m: "r \<in> set [movie_A_both, movie_B]" by simp
  have g: "str ''Genre'' \<noteq> Scrape_Date" and d: "str ''Director'' \<noteq> Scrape_Date"
    and t: "Movie_Title \<noteq> Scrape_Date"
    by (simp_all add: example_defs)
  from fields g have 1: "map_of r (str ''Genre'') = Some (PStr (str ''Action''))"
    by (simp add: real_value_def example_defs more_example_defs)
  from fields d have 2: "map_of r (str ''Director'') = Some (PStr (str ''Nolan''))"
    by (simp add: real_value_def example_defs more_example_defs)
  from fields t have 3: "map_of r Movie_Title = Some ?A"
    by (simp add: real_value_def example_defs more_example_defs)
  from sd have 4: "map_of r Scrape_Date = Some (PStr (str ''2024-02-01 10:05:00''))"
    by (simp add: example_defs more_example_defs)
  from h1 m 1 2 3 4 show ?thesis by blast
qed


section \<open>Properties of the session walker\<close>

lemmas walker_defs = scrape_aggregated_showtimes_def date_options_of_def MAX_DAYS_TO_SCRAPE_def
  parse_showtimes_from_html_def strip_def is_space_def N_A_def str_def initial_token_def
  refresh_token_def final_json_of_def server_failing_at_def page_three_days_def
  page_two_mondays_def page_next_day_def page_without_selector_def page_without_dates_def

text \<open>
  C4: when the initial page has no date-selector control, the walker returns the sentinel
  and has posted no form.
\<close>

theorem walker_no_date_selector:
  "date_dropdown page = None \<Longrightarrow>
   scrape_aggregated_showtimes (GetOk page) post = \<lparr>returned = N_A, posted = []\<rparr>"
  by (simp add: scrape_aggregated_showtimes_def)

theorem walker_no_date_selector_witness:
  "scrape_aggregated_showtimes (GetOk page_without_selector) (server_failing_at 3)
     = \<lparr>returned = str ''N/A'', posted = []\<rparr>"
proof -
  have "date_dropdown page_without_selector = None" by (simp add: page_without_selector_def)
  from walker_no_date_selector [OF this] show ?thesis by (simp add: N_A_def)
qed

lemma option_pairs_empty:
  "option_pairs opts = [] \<longleftrightarrow> (\<forall>opt \<in> set opts. opt_value opt = None \<or> opt_value opt = Some [])"
  by (induction opts) (auto split: option.splits)

lemma date_options_of_empty:
  "date_options_of opts = [] \<longleftrightarrow> (\<forall>opt \<in> set opts. opt_value opt = None \<or> opt_value opt = Some [])"
  by (simp add: date_options_of_def MAX_DAYS_TO_SCRAPE_def option_pairs_empty)

text \<open>
  C10: when the initial page has the date-selector control but none of its options carries
  a value (or only empty ones), so that the list of selectable dates is empty, the walker
  returns the sentinel and has posted no form; and the result does not depend on the
  showtime markup of the page, which is not parsed.
\<close>

theorem walker_no_selectable_date:
  assumes "date_dropdown page = Some opts"
    and "\<forall>opt \<in> set opts. opt_value opt = None \<or> opt_value opt = Some []"
  shows "scrape_aggregated_showtimes (GetOk page) post = \<lparr>returned = N_A, posted = []\<rparr>
    \<and> scrape_aggregated_showtimes (GetOk (page\<lparr>showtimes_list := elems\<rparr>)) post
        = scrape_aggregated_showtimes (GetOk page) post"
proof -
  from assms(2) have "date_options_of opts = []" by (simp add: date_options_of_empty)
  with assms(1) show ?thesis by (simp add: scrape_aggregated_showtimes_def)
qed

theorem walker_no_selectable_date_witness:
  "scrape_aggregated_showtimes (GetOk page_without_dates) (server_failing_at 3)
     = \<lparr>returned = str ''N/A'', posted = []\<rparr>"
proof -
  have h1: "date_dropdown page_without_dates
      = Some [\<lparr>opt_value = None, opt_text = str ''Select a date''\<rparr>]"
    by (simp add: page_without_dates_def)
  have h2: "\<forall>opt \<in> set [\<lparr>opt_value = None, opt_text = str ''Select a date''\<rparr>].
      opt_value opt = None \<or> opt_value opt = Some []" by simp
  from walker_no_selectable_date [OF h1 h2] show ?thesis by (simp add: N_A_def)
qed


lemma post_loop_Inr:
  "post_loop post i ds all_dates_data vs ev = (Inr all', forms) \<Longrightarrow>
   \<exists>sts. length sts \<le> length ds
     \<and> all' = collect_dates (zip (map snd (take (length sts) ds)) sts) all_dates_data
     \<and> (\<forall>j < length sts. \<exists>p. post (i + j) (forms ! j) = PostResponse 200 p
            \<and> parse_showtimes_from_html (showtimes_list p) = Inr (sts ! j))
     \<and> (if length forms = length sts then length sts = length ds
         else length forms = Suc (length sts) \<and> length sts < length ds
           \<and> (\<exists>s p. post (i + length sts) (forms ! length sts) = PostResponse s p \<and> s \<noteq> 200))"
proof (induction post i ds all_dates_data vs ev arbitrary: all' forms rule: post_loop.induct)
  case (1 post i all_dates_data viewstate eventvalidation)
  then show ?case by simp
next
  case (2 post i date_val date_txt rest all_dates_data viewstate eventvalidation)
  let ?form = "\<lparr>event_target = str ''ctl00$cphContent$ctl00$ddlShowdate'',
                  event_argument = [], last_focus = [],
                  form_viewstate = viewstate, form_eventvalidation = eventvalidation,
                  form_showdate = date_val\<rparr>"
  from 2(2) obtain status_code post_soup where resp: "post i ?form = PostResponse status_code post_soup"
    by (cases "post i ?form") (auto simp add: Let_def)
  show ?case
  proof (cases "status_code = 200")
    case False
    with 2(2) resp have "all' = all_dates_data" "forms = [?form]" by (auto simp add: Let_def)
    with resp False show ?thesis by (intro exI [of _ "[]"]) auto
  next
    case True
    with 2(2) resp obtain date_showtimes
      where parse: "parse_showtimes_from_html (showtimes_list post_soup) = Inr date_showtimes"
      by (cases "parse_showtimes_from_html (showtimes_list post_soup)") (auto simp add: Let_def)
    with 2(2) resp True obtain forms'
      where run: "post_loop post (Suc i) rest (AList.update date_txt date_showtimes all_dates_data)
               (refresh_token viewstate (viewstate_input post_soup))
               (refresh_token eventvalidation (eventvalidation_input post_soup)) = (Inr all', forms')"
        and forms: "forms = ?form # forms'"
      by (auto simp add: Let_def split: prod.splits)
    from 2(1) [OF refl resp _ parse run] True obtain sts
      where len: "length sts \<le> length rest"
        and all: "all' = collect_dates (zip (map snd (take (length sts) rest)) sts)
                   (AList.update date_txt date_showtimes all_dates_data)"
        and ok: "\<forall>j < length sts. \<exists>p. post (Suc i + j) (forms' ! j) = PostResponse 200 p
            \<and> parse_showtimes_from_html (showtimes_list p) = Inr (sts ! j)"
        and fin: "if length forms' = length sts then length sts = length rest
         else length forms' = Suc (length sts) \<and> length sts < length rest
           \<and> (\<exists>s p. post (Suc i + length sts) (forms' ! length sts) = PostResponse s p \<and> s \<noteq> 200)"
      by auto
    let ?sts = "date_showtimes # sts"
    have a: "length ?sts \<le> length ((date_val, date_txt) # rest)" using len by simp
    have b: "all' = collect_dates (zip (map snd (take (length ?sts) ((date_val, date_txt) # rest))) ?sts)
                 all_dates_data"
      using all by simp
    have c: "\<forall>j < length ?sts. \<exists>p. post (i + j) (forms ! j) = PostResponse 200 p
            \<and> parse_showtimes_from_html (showtimes_list p) = Inr (?sts ! j)"
    proof (intro allI impI)
      fix j assume j: "j < length ?sts"
      show "\<exists>p. post (i + j) (forms ! j) = PostResponse 200 p
            \<and> parse_showtimes_from_html (showtimes_list p) = Inr (?sts ! j)"
      proof (cases j)
        case 0
        with resp True parse forms show ?thesis by simp
      next
        case (Suc j')
        with j ok forms show ?thesis by simp
      qed
    qed
    have d: "if length forms = length ?sts then length ?sts = length ((date_val, date_txt) # rest)
         else length forms = Suc (length ?sts) \<and> length ?sts < length ((date_val, date_txt) # rest)
           \<and> (\<exists>s p. post (i + length ?sts) (forms ! length ?sts) = PostResponse s p \<and> s \<noteq> 200)"
      using fin forms by (auto split: if_splits)
    from a b c d show ?thesis by blast
  qed
qed

lemma post_loop_Inl:
  "post_loop post i ds all_dates_data vs ev = (Inl e, forms) \<Longrightarrow>
   forms \<noteq> [] \<and> (\<forall>j < length forms. \<forall>s p. post (i + j) (forms ! j) = PostResponse s p \<longrightarrow> s = 200)"
proof (induction post i ds all_dates_data vs ev arbitrary: forms rule: post_loop.induct)
  case (1 post i all_dates_data viewstate eventvalidation)
  then show ?case by simp
next
  case (2 post i date_val date_txt rest all_dates_data viewstate eventvalidation)
  let ?form = "\<lparr>event_target = str ''ctl00$cphContent$ctl00$ddlShowdate'',
                  event_argument = [], last_focus = [],
                  form_viewstate = viewstate, form_eventvalidation = eventvalidation,
                  form_showdate = date_val\<rparr>"
  show ?case
  proof (cases "post i ?form")
    case PostRaised
    with 2(2) have "forms = [?form]" by (simp add: Let_def)
    with PostRaised show ?thesis by simp
  next
    case (PostResponse status_code post_soup)
    with 2(2) have ok: "status_code = 200" by (auto simp add: Let_def split: if_splits)
    obtain date_showtimes
      where parse: "parse_showtimes_from_html (showtimes_list post_soup) = Inr date_showtimes"
      using parse_showtimes_from_html_returns by blast
    with 2(2) PostResponse ok obtain forms'
      where run: "post_loop post (Suc i) rest (AList.update date_txt date_showtimes all_dates_data)
               (refresh_token viewstate (viewstate_input post_soup))
               (refresh_token eventvalidation (eventvalidation_input post_soup)) = (Inl e, forms')"
        and forms: "forms = ?form # forms'"
      by (auto simp add: Let_def split: prod.splits)
    from 2(1) [OF refl PostResponse _ parse run] ok
    have ih: "\<forall>j < length forms'. \<forall>s p. post (Suc i + j) (forms' ! j) = PostResponse s p \<longrightarrow> s = 200"
      by simp
    have "\<forall>j < length forms. \<forall>s p. post (i + j) (forms ! j) = PostResponse s p \<longrightarrow> s = 200"
    proof (intro allI impI)
      fix j s p assume j: "j < length forms" and r: "post (i + j) (forms ! j) = PostResponse s p"
      show "s = 200"
      proof (cases j)
        case 0
        with r forms PostResponse ok show ?thesis by simp
      next
        case (Suc j')
        with j r forms ih show ?thesis by auto
      qed
    qed
    with forms show ?thesis by simp
  qed
qed


lemma map_of_map_entry_same:
  "map_of (AList.map_entry k f al) k = map_option f (map_of al k)"
  by (induction al) auto

lemma map_of_map_entry_other:
  "k' \<noteq> k \<Longrightarrow> map_of (AList.map_entry k f al) k' = map_of al k'"
  by (induction al) auto

lemma add_cinema_step_keeps:
  assumes "has_showing cm c sh"
  shows "has_showing
     (AList.map_entry name (\<lambda>e. e\<lparr>showings := showings e @ [new]\<rparr>)
        (if map_of cm name = None
         then AList.update name \<lparr>cinemaName = name, showings = []\<rparr> cm else cm)) c sh"
proof (cases "c = name")
  case True
  with assms show ?thesis
    by (auto simp add: has_showing_def map_of_map_entry_same)
next
  case False
  with assms show ?thesis
    by (auto simp add: has_showing_def map_of_map_entry_other map_of_update_other)
qed

lemma add_cinema_step_adds:
  "has_showing
     (AList.map_entry name (\<lambda>e. e\<lparr>showings := showings e @ [new]\<rparr>)
        (if map_of cm name = None
         then AList.update name \<lparr>cinemaName = name, showings = []\<rparr> cm else cm)) name new
   \<or> (\<exists>e. map_of cm name = Some e \<and> cinemaName e \<noteq> name)"
  by (cases "map_of cm name")
     (auto simp add: has_showing_def map_of_map_entry_same map_of_update_same)

lemma add_cinema_step_names:
  assumes "names_are_keys cm"
  shows "names_are_keys
     (AList.map_entry name (\<lambda>e. e\<lparr>showings := showings e @ [new]\<rparr>)
        (if map_of cm name = None
         then AList.update name \<lparr>cinemaName = name, showings = []\<rparr> cm else cm))"
  unfolding names_are_keys_def
proof (intro allI impI)
  fix c e
  assume m: "map_of (AList.map_entry name (\<lambda>e. e\<lparr>showings := showings e @ [new]\<rparr>)
        (if map_of cm name = None
         then AList.update name \<lparr>cinemaName = name, showings = []\<rparr> cm else cm)) c = Some e"
  show "cinemaName e = c"
  proof (cases "c = name")
    case True
    with m assms show ?thesis
      by (cases "map_of cm name")
         (auto simp add: names_are_keys_def map_of_map_entry_same map_of_update_same)
  next
    case False
    with m assms show ?thesis
      by (auto simp add: names_are_keys_def map_of_map_entry_other map_of_update_other
          split: if_splits)
  qed
qed

lemma add_cinemas_names:
  "names_are_keys cm \<Longrightarrow> names_are_keys (add_cinemas date_str cinemas cm)"
proof (induction date_str cinemas cm rule: add_cinemas.induct)
  case (1 date_str cinema_map)
  then show ?case by simp
next
  case (2 date_str cinema_name ts cinemas cinema_map)
  from 2(1) [OF refl add_cinema_step_names [OF 2(2)]] show ?case by (simp add: Let_def)
qed

lemma add_cinemas_keeps:
  "has_showing cm c sh \<Longrightarrow> has_showing (add_cinemas date_str cinemas cm) c sh"
proof (induction date_str cinemas cm rule: add_cinemas.induct)
  case (1 date_str cinema_map)
  then show ?case by simp
next
  case (2 date_str cinema_name ts cinemas cinema_map)
  from 2(1) [OF refl add_cinema_step_keeps [OF 2(2)]] show ?case by (simp add: Let_def)
qed

lemma add_cinemas_adds:
  "names_are_keys cm \<Longrightarrow> (c, ts) \<in> set cinemas \<Longrightarrow>
   has_showing (add_cinemas date_str cinemas cm) c \<lparr>show_date = date_str, show_times = ts\<rparr>"
proof (induction date_str cinemas cm rule: add_cinemas.induct)
  case (1 date_str cinema_map)
  then show ?case by simp
next
  case (2 date_str cinema_name ts' cinemas cinema_map)
  let ?cm = "AList.map_entry cinema_name
       (\<lambda>e. e\<lparr>showings := showings e @ [\<lparr>show_date = date_str, show_times = ts'\<rparr>]\<rparr>)
       (if map_of cinema_map cinema_name = None
        then AList.update cinema_name \<lparr>cinemaName = cinema_name, showings = []\<rparr> cinema_map
        else cinema_map)"
  have names: "names_are_keys ?cm" using 2(2) by (rule add_cinema_step_names)
  show ?case
  proof (cases "(c, ts) = (cinema_name, ts')")
    case True
    from add_cinema_step_adds [of cinema_name "\<lparr>show_date = date_str, show_times = ts'\<rparr>" cinema_map]
      2(2)
    have "has_showing ?cm cinema_name \<lparr>show_date = date_str, show_times = ts'\<rparr>"
      by (auto simp add: names_are_keys_def)
    then have "has_showing (add_cinemas date_str cinemas ?cm) cinema_name
        \<lparr>show_date = date_str, show_times = ts'\<rparr>"
      by (rule add_cinemas_keeps)
    with True show ?thesis by (simp add: Let_def)
  next
    case False
    with 2(3) have "(c, ts) \<in> set cinemas" by auto
    from 2(1) [OF refl names this] show ?thesis by (simp add: Let_def)
  qed
qed

lemma restructure_names:
  "names_are_keys cm \<Longrightarrow> names_are_keys (restructure all_dates_data cm)"
  by (induction all_dates_data cm rule: restructure.induct) (auto intro: add_cinemas_names)

lemma restructure_keeps:
  "has_showing cm c sh \<Longrightarrow> has_showing (restructure all_dates_data cm) c sh"
  by (induction all_dates_data cm rule: restructure.induct) (auto intro: add_cinemas_keeps)

lemma restructure_adds:
  "names_are_keys cm \<Longrightarrow> (date_str, cinemas) \<in> set all_dates_data \<Longrightarrow> (c, ts) \<in> set cinemas \<Longrightarrow>
   has_showing (restructure all_dates_data cm) c \<lparr>show_date = date_str, show_times = ts\<rparr>"
proof (induction all_dates_data cm rule: restructure.induct)
  case (1 cinema_map)
  then show ?case by simp
next
  case (2 d cs rest cinema_map)
  show ?case
  proof (cases "(date_str, cinemas) = (d, cs)")
    case True
    with 2(2) 2(4) have "has_showing (add_cinemas d cs cinema_map) c
        \<lparr>show_date = date_str, show_times = ts\<rparr>"
      by (auto intro: add_cinemas_adds)
    then show ?thesis by (auto intro: restructure_keeps)
  next
    case False
    with 2(3) have "(date_str, cinemas) \<in> set rest" by auto
    from 2(1) [OF add_cinemas_names [OF 2(2)] this 2(4)] show ?thesis by simp
  qed
qed

lemma final_json_has_showing:
  assumes "(date_str, cinemas) \<in> set all_dates_data" "(c, ts) \<in> set cinemas"
  shows "\<exists>e \<in> set (final_json_of all_dates_data).
           cinemaName e = c \<and> \<lparr>show_date = date_str, show_times = ts\<rparr> \<in> set (showings e)"
proof -
  have "names_are_keys []" by (simp add: names_are_keys_def)
  from restructure_adds [OF this assms]
  obtain e where e: "map_of (restructure all_dates_data []) c = Some e" "cinemaName e = c"
    "\<lparr>show_date = date_str, show_times = ts\<rparr> \<in> set (showings e)"
    by (auto simp add: has_showing_def)
  from e(1) have "(c, e) \<in> set (restructure all_dates_data [])" by (rule map_of_SomeD)
  then have "e \<in> set (final_json_of all_dates_data)" by (force simp add: final_json_of_def)
  with e show ?thesis by blast
qed

lemma collect_dates_append:
  "collect_dates (xs @ ys) all_dates_data = collect_dates ys (collect_dates xs all_dates_data)"
  by (induction xs all_dates_data rule: collect_dates.induct) auto

lemma collect_dates_absent:
  "l \<notin> fst ` set xs \<Longrightarrow> map_of (collect_dates xs all_dates_data) l = map_of all_dates_data l"
  by (induction xs all_dates_data rule: collect_dates.induct) (auto simp add: map_of_update_other)

lemma collect_dates_last:
  assumes "i < length xs" "fst (xs ! i) \<notin> fst ` set (drop (Suc i) xs)"
  shows "xs ! i \<in> set (collect_dates xs all_dates_data)"
proof -
  obtain l st where p: "xs ! i = (l, st)" by (cases "xs ! i")
  from assms(1) have xs: "xs = take i xs @ (l, st) # drop (Suc i) xs"
    by (metis p id_take_nth_drop)
  have "collect_dates xs all_dates_data =
      collect_dates (drop (Suc i) xs)
        (AList.update l st (collect_dates (take i xs) all_dates_data))"
    by (subst xs) (simp add: collect_dates_append)
  moreover from assms(2) p have "l \<notin> fst ` set (drop (Suc i) xs)" by simp
  ultimately have "map_of (collect_dates xs all_dates_data) l = Some st"
    by (simp add: collect_dates_absent map_of_update_same)
  then have "(l, st) \<in> set (collect_dates xs all_dates_data)" by (rule map_of_SomeD)
  with p show ?thesis by simp
qed


text \<open>
  C3, as stated, fails: dates are collected under their display label. The first two options
  of this page have the same label; the first postback succeeds and the second fails, and
  the payload holds the showtimes of the first postback only, not those of the initial
  page.
\<close>

theorem postback_failure_counterexample:
  "parse_showtimes_from_html (showtimes_list page_two_mondays)
     = Inr [(str ''GSC'', [str ''10:00''])]
   \<and> returned (scrape_aggregated_showtimes (GetOk page_two_mondays) (server_failing_at 1))
     = json_dumps [\<lparr>cinemaName = str ''TGV'',
                    showings = [\<lparr>show_date = str ''Mon'', show_times = [str ''12:00'']\<rparr>]\<rparr>]
   \<and> length (posted (scrape_aggregated_showtimes (GetOk page_two_mondays) (server_failing_at 1)))
     = 2"
  by (simp add: walker_defs)

text \<open>
  C3, amended: if the postback of index \<open>k\<close> comes back with a status other than 200, it
  is the last form posted, so no further date is processed; every earlier postback came back
  with status 200; the walker returns the serialization of what was collected from the
  initial page and those \<open>k\<close> postbacks; and that payload holds the showtimes of every
  processed date whose display label is not the label of a later processed date: for each
  cinema of such a date, the entry of the cinema has a showing with the date's label and the
  cinema's times.
\<close>

theorem postback_failure_keeps_collected:
  assumes "date_dropdown page = Some opts"
    and "date_options_of opts = (first_val, first_txt) # remaining"
    and "res = scrape_aggregated_showtimes (GetOk page) post"
    and "k < length (posted res)"
    and "post k (posted res ! k) = PostResponse status_code body"
    and "status_code \<noteq> 200"
  shows "\<exists>first sts processed.
      length (posted res) = Suc k \<and> k < length remaining
      \<and> parse_showtimes_from_html (showtimes_list page) = Inr first \<and> length sts = k
      \<and> (\<forall>j < k. \<exists>p. post j (posted res ! j) = PostResponse 200 p
             \<and> parse_showtimes_from_html (showtimes_list p) = Inr (sts ! j))
      \<and> processed = (first_txt, first) # zip (map snd (take k remaining)) sts
      \<and> returned res = json_dumps (final_json_of (collect_dates processed []))
      \<and> (\<forall>i < length processed.
            fst (processed ! i) \<notin> fst ` set (drop (Suc i) processed) \<longrightarrow>
            (\<forall>(c, ts) \<in> set (snd (processed ! i)).
               \<exists>e \<in> set (final_json_of (collect_dates processed [])).
                 cinemaName e = c
                 \<and> \<lparr>show_date = fst (processed ! i), show_times = ts\<rparr> \<in> set (showings e)))"
proof -
  obtain first where first: "parse_showtimes_from_html (showtimes_list page) = Inr first"
    using parse_showtimes_from_html_returns by blast
  obtain r forms where loop: "post_loop post 0 remaining [(first_txt, first)]
      (initial_token (viewstate_input page)) (initial_token (eventvalidation_input page))
      = (r, forms)" by (cases "post_loop post 0 remaining [(first_txt, first)]
      (initial_token (viewstate_input page)) (initial_token (eventvalidation_input page))")
  have posted: "posted res = forms"
    using assms(1,2,3) first loop
    by (cases r) (simp_all add: scrape_aggregated_showtimes_def)
  show ?thesis
  proof (cases r)
    case (Inl e)
    from post_loop_Inl [OF loop [unfolded Inl]] assms(4,5,6) posted show ?thesis by auto
  next
    case (Inr all')
    from post_loop_Inr [OF loop [unfolded Inr]] obtain sts
      where len: "length sts \<le> length remaining"
        and all: "all' = collect_dates (zip (map snd (take (length sts) remaining)) sts)
                    [(first_txt, first)]"
        and ok: "\<forall>j < length sts. \<exists>p. post (0 + j) (forms ! j) = PostResponse 200 p
            \<and> parse_showtimes_from_html (showtimes_list p) = Inr (sts ! j)"
        and fin: "if length forms = length sts then length sts = length remaining
         else length forms = Suc (length sts) \<and> length sts < length remaining
           \<and> (\<exists>s p. post (0 + length sts) (forms ! length sts) = PostResponse s p \<and> s \<noteq> 200)"
      by blast
    have "\<not> k < length sts"
    proof
      assume "k < length sts"
      with ok obtain p where "post k (forms ! k) = PostResponse 200 p" by auto
      with assms(5,6) posted show False by simp
    qed
    with fin assms(4) posted have k: "length sts = k" "length forms = Suc k" "k < length remaining"
      by (auto split: if_splits)
    let ?processed = "(first_txt, first) # zip (map snd (take k remaining)) sts"
    have ret: "returned res = json_dumps (final_json_of (collect_dates ?processed []))"
      using assms(1,2,3) first loop Inr all k
      by (simp add: scrape_aggregated_showtimes_def)
    have contains: "\<forall>i < length ?processed.
            fst (?processed ! i) \<notin> fst ` set (drop (Suc i) ?processed) \<longrightarrow>
            (\<forall>(c, ts) \<in> set (snd (?processed ! i)).
               \<exists>e \<in> set (final_json_of (collect_dates ?processed [])).
                 cinemaName e = c
                 \<and> \<lparr>show_date = fst (?processed ! i), show_times = ts\<rparr> \<in> set (showings e))"
    proof (intro allI impI)
      fix i assume i: "i < length ?processed"
        and last: "fst (?processed ! i) \<notin> fst ` set (drop (Suc i) ?processed)"
      obtain d cs where p: "?processed ! i = (d, cs)" by (cases "?processed ! i")
      from collect_dates_last [OF i last, of "[]"]
      have mem: "(d, cs) \<in> set (collect_dates ?processed [])" by (simp only: p)
      have *: "\<forall>(c, ts) \<in> set cs.
               \<exists>e \<in> set (final_json_of (collect_dates ?processed [])).
                 cinemaName e = c \<and> \<lparr>show_date = d, show_times = ts\<rparr> \<in> set (showings e)"
        using final_json_has_showing [OF mem] by blast
      show "\<forall>(c, ts) \<in> set (snd (?processed ! i)).
               \<exists>e \<in> set (final_json_of (collect_dates ?processed [])).
                 cinemaName e = c
                 \<and> \<lparr>show_date = fst (?processed ! i), show_times = ts\<rparr> \<in> set (showings e)"
        using * by (simp only: p fst_conv snd_conv)
    qed
    from ok k posted have ok': "\<forall>j < k. \<exists>p. post j (posted res ! j) = PostResponse 200 p
             \<and> parse_showtimes_from_html (showtimes_list p) = Inr (sts ! j)" by simp
    from k posted first ok' ret contains show ?thesis by blast
  qed
qed

theorem postback_failure_keeps_collected_witness:
  "returned (scrape_aggregated_showtimes (GetOk page_three_days) (server_failing_at 1))
     = json_dumps
         [\<lparr>cinemaName = str ''GSC'',
            showings = [\<lparr>show_date = str ''Mon'', show_times = [str ''10:00'']\<rparr>]\<rparr>,
          \<lparr>cinemaName = str ''TGV'',
            showings = [\<lparr>show_date = str ''Tue'', show_times = [str ''12:00'']\<rparr>]\<rparr>]
   \<and> length (posted (scrape_aggregated_showtimes (GetOk page_three_days) (server_failing_at 1)))
     = 2"
proof -
  let ?res = "scrape_aggregated_showtimes (GetOk page_three_days) (server_failing_at 1)"
  have h1: "date_dropdown page_three_days
      = Some [\<lparr>opt_value = Some (str ''d1''), opt_text = str ''Mon''\<rparr>,
              \<lparr>opt_value = Some (str ''d2''), opt_text = str ''Tue''\<rparr>,
              \<lparr>opt_value = Some (str ''d3''), opt_text = str ''Wed''\<rparr>]"
    by (simp add: page_three_days_def)
  have h2: "date_options_of [\<lparr>opt_value = Some (str ''d1''), opt_text = str ''Mon''\<rparr>,
              \<lparr>opt_value = Some (str ''d2''), opt_text = str ''Tue''\<rparr>,
              \<lparr>opt_value = Some (str ''d3''), opt_text = str ''Wed''\<rparr>]
      = (str ''d1'', str ''Mon'') # [(str ''d2'', str ''Tue''), (str ''d3'', str ''Wed'')]"
    by (simp add: date_options_of_def MAX_DAYS_TO_SCRAPE_def str_def)
  have h4: "1 < length (posted ?res)" by (simp add: walker_defs)
  have h5: "server_failing_at 1 1 (posted ?res ! 1) = PostResponse 500 page_without_selector"
    by (simp add: server_failing_at_def)
  have h6: "(500::nat) \<noteq> 200" by simp
  from postback_failure_keeps_collected [OF h1 h2 refl h4 h5 h6]
  have "length (posted ?res) = Suc 1" by blast
  moreover have "returned ?res = json_dumps
         [\<lparr>cinemaName = str ''GSC'',
            showings = [\<lparr>show_date = str ''Mon'', show_times = [str ''10:00'']\<rparr>]\<rparr>,
          \<lparr>cinemaName = str ''TGV'',
            showings = [\<lparr>show_date = str ''Tue'', show_times = [str ''12:00'']\<rparr>]\<rparr>]"
    by (simp add: walker_defs)
  ultimately show ?thesis by simp
qed


end
